theory Spec2Isabelle
  imports Complex_Main
begin

section \<open>Values of the runtime (runtime/primitives.py, runtime/io\_adapter.py)\<close>

text \<open>
  The interpreter is dynamically typed: every block maps one Python value to one Python
  value.  The values that the core itself builds or inspects are enumerated below.  A
  Python \<open>float\<close> is kept abstract (type parameter \<open>'f\<close>): its arithmetic, parsing and
  printing belong to the host language and enter the model through the record \<open>host\<close>.
  Any other host object (a bound method obtained by \<open>getattr\<close>, an \<open>IOError\<close> record,
  an instance of a class of a collaborator) is an opaque \<open>VObj\<close>.

  \<^item> \<open>PyNone\<close> is Python's own \<open>None\<close>; \<open>NONE\<close> is the singleton \<open>None_()\<close> of primitives.py.
  \<^item> \<open>VSome\<close> is \<open>primitives.Some\<close>; \<open>VOk\<close> and \<open>VErr\<close> are \<open>io_adapter.Ok\<close> and
    \<open>io_adapter.Err\<close>, the classes that io\_primitives.py imports.
  \<^item> A Mapping is string-keyed; the association list keeps insertion order and has no
    duplicate keys when built by \<open>dict_set\<close>.
\<close>

datatype 'f val =
    PyNone
  | NONE
  | VBool bool
  | VInt int
  | VFloat 'f
  | VStr string
  | VList "'f val list"
  | VTuple "'f val list"
  | VDict "(string \<times> 'f val) list"
  | VSome "'f val"
  | VOk "'f val"
  | VErr "'f val"
  | VObj nat

text \<open>Exceptions are values: a raising computation returns \<open>Inl\<close> of one of these.\<close>

datatype err =
    TypeError
  | ValueError
  | IndexError
  | ZeroDivisionError
  | OverflowError
  | Exception string
  | HostError nat

type_synonym 'f res = "err + 'f val"

datatype arith_op = Add | Sub | Mul | TrueDiv | Mod

datatype cmp_op = Eq | Ne | Ge | Le | Gt | Lt

text \<open>
  What the host language supplies.  Each field is used only where the model has no
  definition of its own; the theorems below hold for every host unless they say otherwise.
\<close>

record 'f host =
  float_of_str :: "string \<Rightarrow> 'f option"
  float_truthy :: "'f \<Rightarrow> bool"
  obj_truthy :: "nat \<Rightarrow> bool"
  host_arith :: "arith_op \<Rightarrow> 'f val \<Rightarrow> 'f val \<Rightarrow> 'f res"
  host_compare :: "cmp_op \<Rightarrow> 'f val \<Rightarrow> 'f val \<Rightarrow> 'f res"
  host_str :: "'f val \<Rightarrow> string"
  host_int :: "'f val \<Rightarrow> err + int"
  host_getattr :: "'f val \<Rightarrow> string \<Rightarrow> 'f val option"
  obj_getattr :: "nat \<Rightarrow> string \<Rightarrow> err + 'f val option"
  host_builtin :: "string \<Rightarrow> 'f val \<Rightarrow> 'f res"
  host_iter :: "nat \<Rightarrow> err + 'f val list"
  host_len :: "nat \<Rightarrow> nat option"

text \<open>Python truthiness (\<open>bool(v)\<close>): \<open>None_.__bool__\<close> returns \<open>False\<close>; the dataclasses
  \<open>Some\<close>, \<open>Ok\<close>, \<open>Err\<close> define neither \<open>__bool__\<close> nor \<open>__len__\<close> and are always true.\<close>

fun truthy :: "'f host \<Rightarrow> 'f val \<Rightarrow> bool" where
  "truthy H PyNone = False"
| "truthy H NONE = False"
| "truthy H (VBool b) = b"
| "truthy H (VInt i) = (i \<noteq> 0)"
| "truthy H (VFloat x) = float_truthy H x"
| "truthy H (VStr s) = (s \<noteq> [])"
| "truthy H (VList xs) = (xs \<noteq> [])"
| "truthy H (VTuple xs) = (xs \<noteq> [])"
| "truthy H (VDict kvs) = (kvs \<noteq> [])"
| "truthy H (VSome v) = True"
| "truthy H (VOk v) = True"
| "truthy H (VErr v) = True"
| "truthy H (VObj n) = obj_truthy H n"

section \<open>Blocks and the combinators that need no expression (class Primitives)\<close>

record 'f Block =
  name :: string
  fn :: "'f val \<Rightarrow> 'f res"

text \<open>\<open>" | ".join(names)\<close>\<close>

fun join :: "string \<Rightarrow> string list \<Rightarrow> string" where
  "join sep [] = []"
| "join sep [s] = s"
| "join sep (s # t # ss) = s @ sep @ join sep (t # ss)"

text \<open>\<open>pipe_fn\<close>: \<open>result = x; for block in blocks: result = block(result)\<close>.\<close>

fun pipe_fn :: "'f Block list \<Rightarrow> 'f val \<Rightarrow> 'f res" where
  "pipe_fn [] result = Inr result"
| "pipe_fn (block # blocks) result =
     (case fn block result of
        Inl e \<Rightarrow> Inl e
      | Inr result' \<Rightarrow> pipe_fn blocks result')"

definition pipe :: "'f Block list \<Rightarrow> 'f Block" where
  "pipe blocks =
     \<lparr>name = ''pipe('' @ join '' | '' (map name blocks) @ '')'', fn = pipe_fn blocks\<rparr>"

text \<open>\<open>parallel_fn\<close>: \<open>tuple(block(x) for block in blocks)\<close>; the generator runs the blocks
  in order and the first exception ends it.\<close>

fun collect :: "'f Block list \<Rightarrow> 'f val \<Rightarrow> err + 'f val list" where
  "collect [] x = Inr []"
| "collect (block # blocks) x =
     (case fn block x of
        Inl e \<Rightarrow> Inl e
      | Inr v \<Rightarrow> (case collect blocks x of Inl e \<Rightarrow> Inl e | Inr vs \<Rightarrow> Inr (v # vs)))"

definition parallel_fn :: "'f Block list \<Rightarrow> 'f val \<Rightarrow> 'f res" where
  "parallel_fn blocks x = (case collect blocks x of Inl e \<Rightarrow> Inl e | Inr vs \<Rightarrow> Inr (VTuple vs))"

text \<open>Decimal text of a number (\<open>str(n)\<close>, \<open>f"{n}"\<close>).\<close>

fun digits_of :: "nat \<Rightarrow> nat \<Rightarrow> string" where
  "digits_of 0 n = []"
| "digits_of (Suc k) n =
     (if n < 10 then [char_of (48 + n)]
      else digits_of k (n div 10) @ [char_of (48 + n mod 10)])"

definition str_of_nat :: "nat \<Rightarrow> string" where
  "str_of_nat n = digits_of (Suc n) n"

definition str_of_int :: "int \<Rightarrow> string" where
  "str_of_int i = (if i < 0 then CHR ''-'' # str_of_nat (nat (- i)) else str_of_nat (nat i))"

definition parallel :: "'f Block list \<Rightarrow> 'f Block" where
  "parallel blocks =
     \<lparr>name = ''parallel('' @ str_of_nat (length blocks) @ '' blocks)'',
      fn = parallel_fn blocks\<rparr>"

definition fanout :: "'f Block list \<Rightarrow> 'f Block" where
  "fanout blocks = parallel blocks"

section \<open>Strings (the \<open>str\<close> methods the evaluator uses)\<close>

text \<open>
  Text is modelled over ASCII: \<open>str.strip\<close> removes the ASCII characters for which
  \<open>str.isspace\<close> holds, \<open>str.isdigit\<close> and \<open>str.isidentifier\<close> are the ASCII classes.
\<close>

definition is_space :: "char \<Rightarrow> bool" where
  "is_space c = (of_char c \<in> {9, 10, 11, 12, 13, 28, 29, 30, 31, 32 :: nat})"

definition isdigit :: "char \<Rightarrow> bool" where
  "isdigit c = (48 \<le> (of_char c :: nat) \<and> (of_char c :: nat) \<le> 57)"

definition is_ident_start :: "char \<Rightarrow> bool" where
  "is_ident_start c =
     (let n = (of_char c :: nat) in (65 \<le> n \<and> n \<le> 90) \<or> (97 \<le> n \<and> n \<le> 122) \<or> n = 95)"

definition isidentifier :: "string \<Rightarrow> bool" where
  "isidentifier s =
     (case s of [] \<Rightarrow> False
      | c # cs \<Rightarrow> is_ident_start c \<and> list_all (\<lambda>d. is_ident_start d \<or> isdigit d) cs)"

definition strip :: "string \<Rightarrow> string" where
  "strip s = rev (dropWhile is_space (rev (dropWhile is_space s)))"

definition startswith :: "string \<Rightarrow> string \<Rightarrow> bool" where
  "startswith s p = (take (length p) s = p)"

definition endswith :: "string \<Rightarrow> string \<Rightarrow> bool" where
  "endswith s p = (length p \<le> length s \<and> drop (length s - length p) s = p)"

text \<open>\<open>s.find(t)\<close>: the least index at which \<open>t\<close> occurs in \<open>s\<close>.\<close>

fun find_sub :: "string \<Rightarrow> string \<Rightarrow> nat option" where
  "find_sub t [] = (if t = [] then Some 0 else None)"
| "find_sub t (c # cs) =
     (if take (length t) (c # cs) = t then Some 0 else map_option Suc (find_sub t cs))"

text \<open>\<open>t in s\<close>\<close>

definition contains :: "string \<Rightarrow> string \<Rightarrow> bool" where
  "contains s t = (find_sub t s \<noteq> None)"

text \<open>\<open>s.rindex(c)\<close> for a single character: the greatest index of \<open>c\<close>.\<close>

fun rindex_from :: "char \<Rightarrow> string \<Rightarrow> nat \<Rightarrow> nat option \<Rightarrow> nat option" where
  "rindex_from c [] i found = found"
| "rindex_from c (x # xs) i found = rindex_from c xs (Suc i) (if x = c then Some i else found)"

definition rindex :: "string \<Rightarrow> char \<Rightarrow> nat option" where
  "rindex s c = rindex_from c s 0 None"

text \<open>\<open>s.split(sep, 1)\<close>\<close>

definition split_once :: "string \<Rightarrow> string \<Rightarrow> string list" where
  "split_once s sep =
     (case find_sub sep s of
        None \<Rightarrow> [s]
      | Some i \<Rightarrow> [take i s, drop (i + length sep) s])"

text \<open>\<open>s.split(c)\<close> for a single character \<open>c\<close>: never empty.\<close>

fun split_char :: "char \<Rightarrow> string \<Rightarrow> string list" where
  "split_char c [] = [[]]"
| "split_char c (x # xs) =
     (if x = c then [] # split_char c xs
      else (case split_char c xs of
              [] \<Rightarrow> [[x]]
            | p # ps \<Rightarrow> (x # p) # ps))"

text \<open>\<open>s[i:j]\<close> for \<open>0 \<le> i\<close>, \<open>0 \<le> j\<close>.\<close>

definition slice :: "string \<Rightarrow> nat \<Rightarrow> nat \<Rightarrow> string" where
  "slice s i j = take (j - i) (drop i s)"

text \<open>\<open>s[1:-1]\<close>\<close>

definition inner_of :: "string \<Rightarrow> string" where
  "inner_of s = butlast (tl s)"

definition upper_char :: "char \<Rightarrow> char" where
  "upper_char c =
     (let n = (of_char c :: nat) in if 97 \<le> n \<and> n \<le> 122 then char_of (n - 32) else c)"

definition lower_char :: "char \<Rightarrow> char" where
  "lower_char c =
     (let n = (of_char c :: nat) in if 65 \<le> n \<and> n \<le> 90 then char_of (n + 32) else c)"

subsection \<open>\<open>int(s)\<close> on text\<close>

text \<open>
  Base-10 \<open>int(s)\<close>: surrounding whitespace is dropped, one sign is allowed, and the
  digits may be grouped by single underscores.  \<open>None\<close> stands for \<open>ValueError\<close>.
  The whitespace that \<open>int\<close> skips in ASCII text is that of C's \<open>isspace\<close>, which leaves out
  the separators \<open>0x1C..0x1F\<close> that \<open>str.strip\<close> removes.
  (CPython's configurable limit on the number of digits is not part of the model.)
\<close>

definition is_int_space :: "char \<Rightarrow> bool" where
  "is_int_space c = (of_char c \<in> {9, 10, 11, 12, 13, 32 :: nat})"

definition int_strip :: "string \<Rightarrow> string" where
  "int_strip s = rev (dropWhile is_int_space (rev (dropWhile is_int_space s)))"

fun digits_ok :: "string \<Rightarrow> bool" where
  "digits_ok [] = False"
| "digits_ok [c] = isdigit c"
| "digits_ok (c # d # cs) =
     (isdigit c \<and> (if d = CHR ''_'' then digits_ok cs else digits_ok (d # cs)))"

fun digits_val :: "string \<Rightarrow> nat \<Rightarrow> nat" where
  "digits_val [] acc = acc"
| "digits_val (c # cs) acc =
     (if c = CHR ''_'' then digits_val cs acc
      else digits_val cs (10 * acc + (of_char c - 48)))"

definition int_of_str :: "string \<Rightarrow> int option" where
  "int_of_str s0 =
     (let s = int_strip s0 in
      case s of
        [] \<Rightarrow> None
      | c # cs \<Rightarrow>
          if c = CHR ''-'' then (if digits_ok cs then Some (- int (digits_val cs 0)) else None)
          else if c = CHR ''+'' then (if digits_ok cs then Some (int (digits_val cs 0)) else None)
          else if digits_ok s then Some (int (digits_val s 0)) else None)"

section \<open>The host operations on dynamic values\<close>

text \<open>\<open>bool\<close> is a subclass of \<open>int\<close>: \<open>True\<close> counts as 1 in arithmetic and comparison.\<close>

fun as_int :: "'f val \<Rightarrow> int option" where
  "as_int (VBool b) = Some (if b then 1 else 0)"
| "as_int (VInt i) = Some i"
| "as_int v = None"

fun is_none :: "'f val \<Rightarrow> bool" where
  "is_none PyNone = True"
| "is_none NONE = True"
| "is_none v = False"

text \<open>
  \<open>operator.add\<close>, \<open>sub\<close>, \<open>mul\<close>, \<open>truediv\<close>, \<open>mod\<close>.  Integer operands are computed here
  (\<open>%\<close> takes the sign of the divisor, as \<open>mod\<close> on \<open>int\<close> does; a zero divisor raises);
  an integer against \<open>None\<close> or \<open>None_\<close> is a \<open>TypeError\<close>, neither class defines an
  arithmetic method; text is concatenated by \<open>+\<close>.  The quotient of \<open>/\<close> is a float and
  every other pair of operands is left to the host.
\<close>

definition int_arith :: "'f host \<Rightarrow> arith_op \<Rightarrow> int \<Rightarrow> int \<Rightarrow> 'f res" where
  "int_arith H op a b =
     (case op of
        Add \<Rightarrow> Inr (VInt (a + b))
      | Sub \<Rightarrow> Inr (VInt (a - b))
      | Mul \<Rightarrow> Inr (VInt (a * b))
      | TrueDiv \<Rightarrow> if b = 0 then Inl ZeroDivisionError else host_arith H TrueDiv (VInt a) (VInt b)
      | Mod \<Rightarrow> if b = 0 then Inl ZeroDivisionError else Inr (VInt (a mod b)))"

definition py_arith :: "'f host \<Rightarrow> arith_op \<Rightarrow> 'f val \<Rightarrow> 'f val \<Rightarrow> 'f res" where
  "py_arith H op l r =
     (case (as_int l, as_int r) of
        (Some a, Some b) \<Rightarrow> int_arith H op a b
      | (Some a, None) \<Rightarrow> if is_none r then Inl TypeError else host_arith H op l r
      | (None, Some b) \<Rightarrow> if is_none l then Inl TypeError else host_arith H op l r
      | (None, None) \<Rightarrow>
          (case (op, l, r) of
             (Add, VStr s, VStr t) \<Rightarrow> Inr (VStr (s @ t))
           | _ \<Rightarrow> host_arith H op l r))"

text \<open>
  \<open>operator.eq\<close>, \<open>ne\<close>, \<open>ge\<close>, \<open>le\<close>, \<open>gt\<close>, \<open>lt\<close>.  Two integers are compared as numbers and
  two texts for equality; \<open>None_\<close> and \<open>None\<close> are equal to themselves only, by identity.
  Everything else (floats, ordering of text, containers, objects) is left to the host.
\<close>

definition int_compare :: "cmp_op \<Rightarrow> int \<Rightarrow> int \<Rightarrow> bool" where
  "int_compare op a b =
     (case op of
        Eq \<Rightarrow> a = b | Ne \<Rightarrow> a \<noteq> b | Ge \<Rightarrow> a \<ge> b | Le \<Rightarrow> a \<le> b | Gt \<Rightarrow> a > b | Lt \<Rightarrow> a < b)"

definition py_compare :: "'f host \<Rightarrow> cmp_op \<Rightarrow> 'f val \<Rightarrow> 'f val \<Rightarrow> 'f res" where
  "py_compare H op l r =
     (case (as_int l, as_int r) of
        (Some a, Some b) \<Rightarrow> Inr (VBool (int_compare op a b))
      | _ \<Rightarrow>
          (case (op, l, r) of
             (Eq, VStr s, VStr t) \<Rightarrow> Inr (VBool (s = t))
           | (Ne, VStr s, VStr t) \<Rightarrow> Inr (VBool (s \<noteq> t))
           | (Eq, NONE, NONE) \<Rightarrow> Inr (VBool True)
           | (Ne, NONE, NONE) \<Rightarrow> Inr (VBool False)
           | (Eq, PyNone, PyNone) \<Rightarrow> Inr (VBool True)
           | (Ne, PyNone, PyNone) \<Rightarrow> Inr (VBool False)
           | _ \<Rightarrow> host_compare H op l r))"

text \<open>\<open>str(v)\<close>: \<open>None_.__repr__\<close> returns \<open>"None_"\<close>.\<close>

definition py_str :: "'f host \<Rightarrow> 'f val \<Rightarrow> string" where
  "py_str H v =
     (case v of
        VStr s \<Rightarrow> s
      | VInt i \<Rightarrow> str_of_int i
      | VBool b \<Rightarrow> (if b then ''True'' else ''False'')
      | NONE \<Rightarrow> ''None_''
      | PyNone \<Rightarrow> ''None''
      | _ \<Rightarrow> host_str H v)"

text \<open>\<open>int(v)\<close>: text is parsed, a container or a dataclass instance is a \<open>TypeError\<close>.\<close>

definition py_int :: "'f host \<Rightarrow> 'f val \<Rightarrow> err + int" where
  "py_int H v =
     (case v of
        VInt i \<Rightarrow> Inr i
      | VBool b \<Rightarrow> Inr (if b then 1 else 0)
      | VStr s \<Rightarrow> (case int_of_str s of None \<Rightarrow> Inl ValueError | Some i \<Rightarrow> Inr i)
      | VFloat x \<Rightarrow> host_int H v
      | VObj n \<Rightarrow> host_int H v
      | _ \<Rightarrow> Inl TypeError)"

text \<open>
  \<open>hasattr(v, part)\<close> and \<open>getattr(v, part)\<close> for a value that is not a \<open>dict\<close>: \<open>Inr None\<close>
  when there is no such attribute.  \<open>hasattr\<close> swallows \<open>AttributeError\<close> only: whatever else
  a property or a \<open>__getattr__\<close> of a host object raises goes through, here \<open>Inl\<close>.  The
  built-in values and the dataclasses do not raise on a lookup: the dataclasses carry
  their fields (\<open>Some.value\<close>, \<open>Ok.value\<close>, \<open>Err.error\<close>), what else such a value offers is the
  host's business, and none of them has an attribute whose name is not an identifier.
\<close>

definition py_getattr :: "'f host \<Rightarrow> 'f val \<Rightarrow> string \<Rightarrow> err + 'f val option" where
  "py_getattr H v part =
     (case v of
        VObj n \<Rightarrow> obj_getattr H n part
      | VSome x \<Rightarrow>
          Inr (if \<not> isidentifier part then None
               else if part = ''value'' then Some x else host_getattr H v part)
      | VOk x \<Rightarrow>
          Inr (if \<not> isidentifier part then None
               else if part = ''value'' then Some x else host_getattr H v part)
      | VErr e \<Rightarrow>
          Inr (if \<not> isidentifier part then None
               else if part = ''error'' then Some e else host_getattr H v part)
      | _ \<Rightarrow> Inr (if \<not> isidentifier part then None else host_getattr H v part))"

text \<open>Hashability, as \<open>dict.get\<close> demands it of a key: a \<open>list\<close>, a \<open>dict\<close> and an
  instance of a dataclass with \<open>eq\<close> and without \<open>frozen\<close> have no hash.\<close>

fun hashable :: "'f val \<Rightarrow> bool" where
  "hashable (VList xs) = False"
| "hashable (VDict kvs) = False"
| "hashable (VSome v) = False"
| "hashable (VOk v) = False"
| "hashable (VErr v) = False"
| "hashable (VTuple xs) = list_all hashable xs"
| "hashable v = True"

text \<open>\<open>d.get(key, NONE)\<close> on a string-keyed \<open>dict\<close>.\<close>

definition dict_get :: "(string \<times> 'f val) list \<Rightarrow> 'f val \<Rightarrow> 'f res" where
  "dict_get kvs key =
     (case key of
        VStr k \<Rightarrow> (case map_of kvs k of None \<Rightarrow> Inr NONE | Some v \<Rightarrow> Inr v)
      | _ \<Rightarrow> if hashable key then Inr NONE else Inl TypeError)"

text \<open>\<open>d[k] = v\<close>: an existing key keeps its place.\<close>

fun dict_set :: "(string \<times> 'f val) list \<Rightarrow> string \<Rightarrow> 'f val \<Rightarrow> (string \<times> 'f val) list" where
  "dict_set [] k v = [(k, v)]"
| "dict_set ((k', v') # kvs) k v =
     (if k' = k then (k, v) # kvs else (k', v') # dict_set kvs k v)"

text \<open>\<open>for x in v\<close>: the elements of a \<open>list\<close> or \<open>tuple\<close>, the characters of a text, the keys
  of a \<open>dict\<close>; numbers, \<open>None\<close> and the dataclasses are not iterable.\<close>

definition py_iter :: "'f host \<Rightarrow> 'f val \<Rightarrow> err + 'f val list" where
  "py_iter H v =
     (case v of
        VList xs \<Rightarrow> Inr xs
      | VTuple xs \<Rightarrow> Inr xs
      | VStr s \<Rightarrow> Inr (map (\<lambda>c. VStr [c]) s)
      | VDict kvs \<Rightarrow> Inr (map (\<lambda>kv. VStr (fst kv)) kvs)
      | VObj n \<Rightarrow> host_iter H n
      | _ \<Rightarrow> Inl TypeError)"

section \<open>The expression evaluator (runtime/primitives.py)\<close>

type_synonym 'f ctx = "string \<Rightarrow> 'f val option"

definition dquote :: string where
  "dquote = [CHR 0x22]"

definition squote :: string where
  "squote = [CHR 0x27]"

text \<open>
  \<open>float(s)\<close> is the host's, with one fact fixed here: text that holds a character no float
  literal can contain (anything but digits, sign, point, underscore, exponent mark and the
  letters of \<open>inf\<close>, \<open>infinity\<close>, \<open>nan\<close>) is rejected with \<open>ValueError\<close>, here \<open>None\<close>.
\<close>

definition float_char :: "char \<Rightarrow> bool" where
  "float_char c = (c \<in> set ''0123456789+-._eEinfatyINFATY'')"

definition py_float :: "'f host \<Rightarrow> string \<Rightarrow> 'f option" where
  "py_float H s = (if s \<noteq> [] \<and> list_all float_char s then float_of_str H s else None)"

definition eval_literal :: "'f host \<Rightarrow> string \<Rightarrow> 'f val" where
  "eval_literal H s0 =
     (let s = strip s0 in
      if s = ''true'' then VBool True
      else if s = ''false'' then VBool False
      else if s = ''null'' then NONE
      else if startswith s dquote \<and> endswith s dquote then VStr (inner_of s)
      else if startswith s squote \<and> endswith s squote then VStr (inner_of s)
      else case int_of_str s of
             Some i \<Rightarrow> VInt i
           | None \<Rightarrow> (case py_float H s of Some x \<Rightarrow> VFloat x | None \<Rightarrow> VStr s))"

text \<open>
  \<open>find_at_depth_0\<close>: the loop runs while \<open>i < len(expr) - len(target) + 1\<close>, that is
  while the rest \<open>expr[i:]\<close> is at least as long as the target; \<open>depth\<close> is a Python
  integer and may fall below zero.  The result is \<open>-1\<close> when nothing is found.
\<close>

fun find_loop :: "string \<Rightarrow> bool \<Rightarrow> string \<Rightarrow> nat \<Rightarrow> int \<Rightarrow> int \<Rightarrow> int" where
  "find_loop target rightmost [] i depth found = found"
| "find_loop target rightmost (c # rest) i depth found =
     (if length (c # rest) < length target then found
      else if c \<in> set ''([{'' then find_loop target rightmost rest (Suc i) (depth + 1) found
      else if c \<in> set '')]}'' then find_loop target rightmost rest (Suc i) (depth - 1) found
      else if depth = 0 \<and> take (length target) (c # rest) = target then
        (if rightmost then find_loop target rightmost rest (Suc i) depth (int i) else int i)
      else find_loop target rightmost rest (Suc i) depth found)"

definition find_at_depth_0 :: "string \<Rightarrow> string \<Rightarrow> bool \<Rightarrow> int" where
  "find_at_depth_0 expr target rightmost = find_loop target rightmost expr 0 0 (- 1)"

text \<open>
  In the source \<open>eval_expr\<close> and its helpers call each other.  Here every helper takes
  the evaluator it calls back as its first argument \<open>ev\<close>; \<open>eval_expr\<close> below passes
  itself.  Each helper calls \<open>ev\<close> on strictly shorter text only, which is what makes
  \<open>eval_expr\<close> total.
\<close>

text \<open>
  The comma loops of \<open>eval_object\<close>, \<open>eval_array\<close> and \<open>split_args\<close>: the text before each
  comma at depth 0, and what is left in \<open>current\<close> at the end.
\<close>

fun split_top :: "string \<Rightarrow> string \<Rightarrow> string \<Rightarrow> int \<Rightarrow> string \<Rightarrow> string list \<times> string" where
  "split_top opens closes [] depth current = ([], current)"
| "split_top opens closes (ch # rest) depth current =
     (let d = (if ch \<in> set opens then depth + 1
               else if ch \<in> set closes then depth - 1 else depth)
      in if ch = CHR '','' \<and> d = 0
         then (case split_top opens closes rest d [] of (ps, l) \<Rightarrow> (current # ps, l))
         else split_top opens closes rest d (current @ [ch]))"

definition split_args :: "string \<Rightarrow> string list" where
  "split_args s =
     (case split_top ''({['' '')}]'' s 0 [] of
        (ps, l) \<Rightarrow> map strip ps @ (if strip l \<noteq> [] then [strip l] else []))"

fun eval_entries ::
  "(string \<Rightarrow> 'f ctx \<Rightarrow> 'f res) \<Rightarrow> 'f ctx \<Rightarrow> string list \<Rightarrow> (string \<times> 'f val) list
     \<Rightarrow> err + (string \<times> 'f val) list" where
  "eval_entries ev ctx [] result = Inr result"
| "eval_entries ev ctx (current # rest) result =
     (case split_once current '':'' of
        [k, v] \<Rightarrow>
          (case ev (strip v) ctx of
             Inl e \<Rightarrow> Inl e
           | Inr x \<Rightarrow> eval_entries ev ctx rest (dict_set result (strip k) x))
      | _ \<Rightarrow> eval_entries ev ctx rest result)"

definition eval_object :: "(string \<Rightarrow> 'f ctx \<Rightarrow> 'f res) \<Rightarrow> string \<Rightarrow> 'f ctx \<Rightarrow> 'f res" where
  "eval_object ev expr ctx =
     (let inner = strip (inner_of expr) in
      if inner = [] then Inr (VDict [])
      else case split_top ''{['' ''}]'' inner 0 [] of
        (ps, l) \<Rightarrow>
          (case eval_entries ev ctx
                  (filter (\<lambda>current. contains current '':'') ps
                   @ (if strip l \<noteq> [] \<and> contains l '':'' then [l] else [])) [] of
             Inl e \<Rightarrow> Inl e
           | Inr result \<Rightarrow> Inr (VDict result)))"

fun eval_items ::
  "(string \<Rightarrow> 'f ctx \<Rightarrow> 'f res) \<Rightarrow> 'f ctx \<Rightarrow> string list \<Rightarrow> err + 'f val list" where
  "eval_items ev ctx [] = Inr []"
| "eval_items ev ctx (current # rest) =
     (case ev (strip current) ctx of
        Inl e \<Rightarrow> Inl e
      | Inr x \<Rightarrow> (case eval_items ev ctx rest of Inl e \<Rightarrow> Inl e | Inr xs \<Rightarrow> Inr (x # xs)))"

definition eval_array :: "(string \<Rightarrow> 'f ctx \<Rightarrow> 'f res) \<Rightarrow> string \<Rightarrow> 'f ctx \<Rightarrow> 'f res" where
  "eval_array ev expr ctx =
     (let inner = strip (inner_of expr) in
      if inner = [] then Inr (VList [])
      else case split_top ''{['' ''}]'' inner 0 [] of
        (ps, l) \<Rightarrow>
          (case eval_items ev ctx (ps @ (if strip l \<noteq> [] then [l] else [])) of
             Inl e \<Rightarrow> Inl e
           | Inr result \<Rightarrow> Inr (VList result)))"

text \<open>\<open>eval_ternary\<close>: \<open>expr.index("?")\<close> and \<open>expr.rindex(":")\<close> raise \<open>ValueError\<close> when the
  character is missing; all three parts are evaluated before one is chosen.\<close>

definition eval_ternary ::
  "(string \<Rightarrow> 'f ctx \<Rightarrow> 'f res) \<Rightarrow> 'f host \<Rightarrow> string \<Rightarrow> 'f ctx \<Rightarrow> 'f res" where
  "eval_ternary ev H expr ctx =
     (case find_sub ''?'' expr of
        None \<Rightarrow> Inl ValueError
      | Some q_idx \<Rightarrow>
          (case rindex expr CHR '':'' of
             None \<Rightarrow> Inl ValueError
           | Some c_idx \<Rightarrow>
               (case ev (take q_idx expr) ctx of
                  Inl e \<Rightarrow> Inl e
                | Inr cond \<Rightarrow>
                    (case ev (slice expr (q_idx + 1) c_idx) ctx of
                       Inl e \<Rightarrow> Inl e
                     | Inr then_val \<Rightarrow>
                         (case ev (drop (c_idx + 1) expr) ctx of
                            Inl e \<Rightarrow> Inl e
                          | Inr else_val \<Rightarrow>
                              Inr (if truthy H cond then then_val else else_val))))))"

text \<open>\<open>eval_property_access\<close>: \<open>ctx.get(parts[0], eval_literal(parts[0]))\<close>, then one step
  per remaining part.\<close>

fun access_parts :: "'f host \<Rightarrow> 'f val \<Rightarrow> string list \<Rightarrow> 'f res" where
  "access_parts H value [] = Inr value"
| "access_parts H value (part # parts) =
     (case value of
        VDict kvs \<Rightarrow>
          access_parts H (case map_of kvs part of None \<Rightarrow> NONE | Some v \<Rightarrow> v) parts
      | _ \<Rightarrow>
          (case py_getattr H value part of
             Inl e \<Rightarrow> Inl e
           | Inr (Some v) \<Rightarrow> access_parts H v parts
           | Inr None \<Rightarrow> Inr NONE))"

definition eval_property_access :: "'f host \<Rightarrow> string \<Rightarrow> 'f ctx \<Rightarrow> 'f res" where
  "eval_property_access H expr ctx =
     (case split_char CHR ''.'' expr of
        [] \<Rightarrow> Inl IndexError
      | p0 # parts \<Rightarrow>
          access_parts H (case ctx p0 of Some v \<Rightarrow> v | None \<Rightarrow> eval_literal H p0) parts)"

text \<open>\<open>base[i]\<close> on a \<open>list\<close> or \<open>tuple\<close>: a negative index counts from the end, and an
  index outside \<open>-len .. len-1\<close> raises \<open>IndexError\<close>.\<close>

definition py_getitem :: "'f val list \<Rightarrow> int \<Rightarrow> 'f res" where
  "py_getitem xs i =
     (if 0 \<le> i then
        (if i < int (length xs) then Inr (xs ! nat i) else Inl IndexError)
      else
        (if - int (length xs) \<le> i then Inr (xs ! nat (int (length xs) + i))
         else Inl IndexError))"

text \<open>\<open>base[int(index)] if int(index) < len(base) else NONE\<close>\<close>

definition index_sequence :: "'f host \<Rightarrow> 'f val list \<Rightarrow> 'f val \<Rightarrow> 'f res" where
  "index_sequence H xs index =
     (case py_int H index of
        Inl e \<Rightarrow> Inl e
      | Inr i \<Rightarrow> if i < int (length xs) then py_getitem xs i else Inr NONE)"

definition eval_index_access ::
  "(string \<Rightarrow> 'f ctx \<Rightarrow> 'f res) \<Rightarrow> 'f host \<Rightarrow> string \<Rightarrow> 'f ctx \<Rightarrow> 'f res" where
  "eval_index_access ev H expr ctx =
     (case find_sub ''['' expr of
        None \<Rightarrow> Inl ValueError
      | Some bracket_idx \<Rightarrow>
          (case ev (take bracket_idx expr) ctx of
             Inl e \<Rightarrow> Inl e
           | Inr base \<Rightarrow>
               (case ev (slice expr (bracket_idx + 1) (length expr - 1)) ctx of
                  Inl e \<Rightarrow> Inl e
                | Inr index \<Rightarrow>
                    (case base of
                       VList xs \<Rightarrow> index_sequence H xs index
                     | VTuple xs \<Rightarrow> index_sequence H xs index
                     | VDict kvs \<Rightarrow> dict_get kvs index
                     | _ \<Rightarrow> Inr NONE))))"

text \<open>
  \<open>parse_expr\<close>.  The parameter names of a lambda, and the binding context that the
  closure \<open>evaluate\<close> builds from its input.
\<close>

definition param_names :: "string \<Rightarrow> string list" where
  "param_names params =
     (if startswith params ''('' \<and> endswith params '')''
      then map strip (split_char CHR '','' (inner_of params))
      else [strip params])"

text \<open>\<open>for i, name in enumerate(param_names): ctx[name] = input_[i] if i < len(input_) else NONE\<close>\<close>

fun bind_params :: "string list \<Rightarrow> nat \<Rightarrow> 'f val list \<Rightarrow> 'f ctx \<Rightarrow> 'f ctx" where
  "bind_params [] i input ctx = ctx"
| "bind_params (nm # names) i input ctx =
     bind_params names (Suc i) input
       (ctx(nm \<mapsto> (if i < length input then input ! i else NONE)))"

definition build_ctx :: "string list \<Rightarrow> 'f val \<Rightarrow> 'f ctx" where
  "build_ctx names input =
     (case names of
        [] \<Rightarrow> Map.empty
      | [nm] \<Rightarrow> Map.empty(nm \<mapsto> input)
      | nm # _ \<Rightarrow>
          (case input of
             VTuple xs \<Rightarrow> bind_params names 0 xs Map.empty
           | VList xs \<Rightarrow> bind_params names 0 xs Map.empty
           | _ \<Rightarrow> Map.empty(nm \<mapsto> input)))"

definition parse_expr_with ::
  "(string \<Rightarrow> 'f ctx \<Rightarrow> 'f res) \<Rightarrow> 'f host \<Rightarrow> string \<Rightarrow> 'f val \<Rightarrow> 'f res" where
  "parse_expr_with ev H expr input =
     (case split_once expr ''=>'' of
        [params, body] \<Rightarrow> ev (strip body) (build_ctx (param_names (strip params)) input)
      | _ \<Rightarrow> Inr (eval_literal H expr))"

text \<open>The comprehensions \<open>[x for x in lst if pred(x)]\<close> and \<open>[fn(x) for x in lst]\<close>.\<close>

fun filter_items :: "'f host \<Rightarrow> ('f val \<Rightarrow> 'f res) \<Rightarrow> 'f val list \<Rightarrow> err + 'f val list" where
  "filter_items H pred [] = Inr []"
| "filter_items H pred (x # xs) =
     (case pred x of
        Inl e \<Rightarrow> Inl e
      | Inr p \<Rightarrow>
          (case filter_items H pred xs of
             Inl e \<Rightarrow> Inl e
           | Inr ys \<Rightarrow> Inr (if truthy H p then x # ys else ys)))"

fun map_items :: "('f val \<Rightarrow> 'f res) \<Rightarrow> 'f val list \<Rightarrow> err + 'f val list" where
  "map_items f [] = Inr []"
| "map_items f (x # xs) =
     (case f x of
        Inl e \<Rightarrow> Inl e
      | Inr y \<Rightarrow> (case map_items f xs of Inl e \<Rightarrow> Inl e | Inr ys \<Rightarrow> Inr (y # ys)))"

text \<open>The table \<open>builtins\<close> of \<open>eval_function_call\<close>; the numeric entries are Python's own
  \<open>abs\<close>, \<open>min\<close>, \<open>max\<close>, \<open>sum\<close>, \<open>int\<close> and \<open>float\<close>.\<close>

definition builtin_names :: "string list" where
  "builtin_names =
     [''length'', ''uppercase'', ''lowercase'', ''toString'', ''toNumber'',
      ''abs'', ''min'', ''max'', ''sum'', ''keys'', ''values'']"

definition builtin :: "'f host \<Rightarrow> string \<Rightarrow> 'f val \<Rightarrow> 'f res" where
  "builtin H fn_name x =
     (if fn_name = ''length'' then
        (case x of
           VStr s \<Rightarrow> Inr (VInt (int (length s)))
         | VList xs \<Rightarrow> Inr (VInt (int (length xs)))
         | VTuple xs \<Rightarrow> Inr (VInt (int (length xs)))
         | VDict kvs \<Rightarrow> Inr (VInt (int (length kvs)))
         | VObj n \<Rightarrow> Inr (VInt (case host_len H n of None \<Rightarrow> 0 | Some k \<Rightarrow> int k))
         | _ \<Rightarrow> Inr (VInt 0))
      else if fn_name = ''uppercase'' then Inr (VStr (map upper_char (py_str H x)))
      else if fn_name = ''lowercase'' then Inr (VStr (map lower_char (py_str H x)))
      else if fn_name = ''toString'' then Inr (VStr (py_str H x))
      else if fn_name = ''keys'' then
        (case x of VDict kvs \<Rightarrow> Inr (VList (map (\<lambda>kv. VStr (fst kv)) kvs)) | _ \<Rightarrow> Inr (VList []))
      else if fn_name = ''values'' then
        (case x of VDict kvs \<Rightarrow> Inr (VList (map snd kvs)) | _ \<Rightarrow> Inr (VList []))
      else host_builtin H fn_name x)"

definition eval_function_call ::
  "(string \<Rightarrow> 'f ctx \<Rightarrow> 'f res) \<Rightarrow> 'f host \<Rightarrow> string \<Rightarrow> 'f ctx \<Rightarrow> 'f res" where
  "eval_function_call ev H expr ctx =
     (case find_sub ''('' expr of
        None \<Rightarrow> Inl ValueError
      | Some paren_idx \<Rightarrow>
          (let fn_name = take paren_idx expr;
               args_str = slice expr (paren_idx + 1) (length expr - 1)
           in if fn_name \<in> set builtin_names then
                (case ev args_str ctx of
                   Inl e \<Rightarrow> Inl e
                 | Inr arg \<Rightarrow> builtin H fn_name arg)
              else if fn_name = ''filter'' then
                (case split_args args_str of
                   [] \<Rightarrow> Inl IndexError
                 | p0 # ps \<Rightarrow>
                     (case ev p0 ctx of
                        Inl e \<Rightarrow> Inl e
                      | Inr lst \<Rightarrow>
                          (case ps of
                             [] \<Rightarrow> Inl IndexError
                           | p1 # _ \<Rightarrow>
                               (case py_iter H lst of
                                  Inl e \<Rightarrow> Inl e
                                | Inr xs \<Rightarrow>
                                    (case filter_items H (parse_expr_with ev H p1) xs of
                                       Inl e \<Rightarrow> Inl e
                                     | Inr ys \<Rightarrow> Inr (VList ys))))))
              else if fn_name = ''map'' then
                (case split_args args_str of
                   [] \<Rightarrow> Inl IndexError
                 | p0 # ps \<Rightarrow>
                     (case ev p0 ctx of
                        Inl e \<Rightarrow> Inl e
                      | Inr lst \<Rightarrow>
                          (case ps of
                             [] \<Rightarrow> Inl IndexError
                           | p1 # _ \<Rightarrow>
                               (case py_iter H lst of
                                  Inl e \<Rightarrow> Inl e
                                | Inr xs \<Rightarrow>
                                    (case map_items (parse_expr_with ev H p1) xs of
                                       Inl e \<Rightarrow> Inl e
                                     | Inr ys \<Rightarrow> Inr (VList ys))))))
              else Inr NONE))"

text \<open>The tests of \<open>eval_expr\<close> that decide which form an expression has.\<close>

text \<open>\<open>depth\<close> after the loop over \<open>expr[paren_idx:]\<close>: openings minus closings.\<close>

fun paren_depth :: "string \<Rightarrow> int \<Rightarrow> int" where
  "paren_depth [] depth = depth"
| "paren_depth (c # cs) depth =
     paren_depth cs (if c = CHR ''('' then depth + 1 else if c = CHR '')'' then depth - 1 else depth)"

definition is_function_call :: "string \<Rightarrow> bool" where
  "is_function_call expr =
     (contains expr ''('' \<and> endswith expr '')'' \<and>
      (case find_sub ''('' expr of
         None \<Rightarrow> False
       | Some paren_idx \<Rightarrow>
           (isidentifier (take paren_idx expr)
            \<or> take paren_idx expr \<in> set (''filter'' # ''map'' # builtin_names))
           \<and> paren_depth (drop paren_idx expr) 0 = 0))"

text \<open>\<open>q_pos\<close> after the loop of the ternary test: the first \<open>?\<close> at depth 0, or \<open>-1\<close>.\<close>

fun q_pos_loop :: "string \<Rightarrow> nat \<Rightarrow> int \<Rightarrow> int \<Rightarrow> int" where
  "q_pos_loop [] i depth q_pos = q_pos"
| "q_pos_loop (c # cs) i depth q_pos =
     (if c \<in> set ''([{'' then q_pos_loop cs (Suc i) (depth + 1) q_pos
      else if c \<in> set '')]}'' then q_pos_loop cs (Suc i) (depth - 1) q_pos
      else if c = CHR ''?'' \<and> depth = 0 \<and> q_pos = - 1 then q_pos_loop cs (Suc i) depth (int i)
      else q_pos_loop cs (Suc i) depth q_pos)"

definition is_ternary :: "string \<Rightarrow> bool" where
  "is_ternary expr =
     (contains expr ''?'' \<and> contains expr '':'' \<and> q_pos_loop expr 0 0 (- 1) > 0)"

definition cmp_ops :: "(string \<times> cmp_op) list" where
  "cmp_ops = [(''=='', Eq), (''!='', Ne), (''>='', Ge), (''<='', Le), (''>'', Gt), (''<'', Lt)]"

text \<open>The comparison loop: the first operator of the table that occurs in \<open>expr\<close> and is
  found at depth 0, with the index of its leftmost such occurrence.\<close>

fun first_comparison :: "(string \<times> cmp_op) list \<Rightarrow> string \<Rightarrow> (string \<times> cmp_op \<times> nat) option" where
  "first_comparison [] expr = None"
| "first_comparison ((op, f) # ops) expr =
     (if contains expr op \<and> find_at_depth_0 expr op False \<ge> 0
      then Some (op, f, nat (find_at_depth_0 expr op False))
      else first_comparison ops expr)"

text \<open>\<open>" && "\<close> and \<open>" || "\<close>: the index at depth 0, if the operator occurs there.\<close>

definition logical_at :: "string \<Rightarrow> string \<Rightarrow> nat option" where
  "logical_at expr op =
     (if contains expr op \<and> find_at_depth_0 expr op False \<ge> 0
      then Some (nat (find_at_depth_0 expr op False)) else None)"

definition arith_ops :: "(string \<times> arith_op) list" where
  "arith_ops = [(''+'', Add), (''-'', Sub), (''*'', Mul), (''/'', TrueDiv), (''%'', Mod)]"

text \<open>The arithmetic loop: the first operator of the table whose spaced form occurs at
  depth 0 with non-empty text on both sides of its rightmost occurrence; the operator and
  the two stripped sides.\<close>

fun first_arith :: "(string \<times> arith_op) list \<Rightarrow> string \<Rightarrow> (string \<times> arith_op \<times> string \<times> string) option" where
  "first_arith [] expr = None"
| "first_arith ((op, f) # ops) expr =
     (let spaced_op = '' '' @ op @ '' '' in
      if contains expr spaced_op \<and> find_at_depth_0 expr spaced_op True \<ge> 0
         \<and> strip (take (nat (find_at_depth_0 expr spaced_op True)) expr) \<noteq> []
         \<and> strip (drop (nat (find_at_depth_0 expr spaced_op True) + length spaced_op) expr) \<noteq> []
      then Some (op, f, strip (take (nat (find_at_depth_0 expr spaced_op True)) expr),
                 strip (drop (nat (find_at_depth_0 expr spaced_op True) + length spaced_op) expr))
      else first_arith ops expr)"

subsection \<open>The helpers call back on shorter text only\<close>

lemma length_strip_le: "length (strip s) \<le> length s"
proof -
  have "length (strip s) = length (dropWhile is_space (rev (dropWhile is_space s)))"
    by (simp add: strip_def)
  also have "\<dots> \<le> length (rev (dropWhile is_space s))"
    by (rule length_dropWhile_le)
  also have "\<dots> \<le> length s"
    by (simp add: length_dropWhile_le)
  finally show ?thesis .
qed

lemma length_inner_of_le: "length (inner_of s) \<le> length s - 2"
  by (simp add: inner_of_def)

lemma find_sub_bound: "find_sub t s = Some i \<Longrightarrow> i + length t \<le> length s"
proof (induction s arbitrary: i)
  case Nil
  then show ?case by (simp split: if_splits)
next
  case (Cons c cs)
  show ?case
  proof (cases "take (length t) (c # cs) = t")
    case True
    have "length t \<le> length (c # cs)"
      using arg_cong[OF True, of length] by simp
    with True Cons.prems show ?thesis by simp
  next
    case False
    with Cons.prems obtain j where "find_sub t cs = Some j" "i = Suc j" by auto
    with Cons.IH show ?thesis by fastforce
  qed
qed

lemma split_top_lengths:
  "split_top os cs s d cur = (ps, l) \<Longrightarrow>
     (\<forall>p \<in> set ps. length p \<le> length cur + length s) \<and> length l \<le> length cur + length s"
proof (induction s arbitrary: d cur ps l)
  case Nil
  then show ?case by simp
next
  case (Cons ch rest)
  let ?d = "if ch \<in> set os then d + 1 else if ch \<in> set cs then d - 1 else d"
  show ?case
  proof (cases "ch = CHR '','' \<and> ?d = 0")
    case True
    obtain ps' l' where r: "split_top os cs rest ?d [] = (ps', l')" by fastforce
    with True Cons.prems have "ps = cur # ps'" "l = l'" by (auto simp: Let_def)
    moreover from Cons.IH[OF r] have "(\<forall>p \<in> set ps'. length p \<le> length rest) \<and> length l' \<le> length rest" by simp
    ultimately show ?thesis by auto
  next
    case False
    with Cons.prems have "split_top os cs rest ?d (cur @ [ch]) = (ps, l)" by (auto simp: Let_def)
    from Cons.IH[OF this] show ?thesis by auto
  qed
qed

lemma eval_entries_cong:
  "(\<And>cur s c. cur \<in> set entries \<Longrightarrow> length s \<le> length cur \<Longrightarrow> ev s c = ev' s c) \<Longrightarrow>
   eval_entries ev ctx entries result = eval_entries ev' ctx entries result"
proof (induction entries arbitrary: result)
  case Nil
  then show ?case by simp
next
  case (Cons cur rest)
  have rest: "\<And>r. eval_entries ev ctx rest r = eval_entries ev' ctx rest r"
    by (rule Cons.IH, rule Cons.prems) simp_all
  show ?case
  proof (cases "find_sub '':'' cur")
    case None
    then show ?thesis by (simp add: split_once_def rest)
  next
    case (Some i)
    have "length (strip (drop (i + 1) cur)) \<le> length cur"
      using length_strip_le[of "drop (i + 1) cur"] by simp
    then have "ev (strip (drop (i + 1) cur)) ctx = ev' (strip (drop (i + 1) cur)) ctx"
      by (intro Cons.prems) simp_all
    with Some show ?thesis by (simp add: split_once_def rest cong: sum.case_cong)
  qed
qed

lemma eval_items_cong:
  "(\<And>cur s c. cur \<in> set entries \<Longrightarrow> length s \<le> length cur \<Longrightarrow> ev s c = ev' s c) \<Longrightarrow>
   eval_items ev ctx entries = eval_items ev' ctx entries"
proof (induction entries)
  case Nil
  then show ?case by simp
next
  case (Cons cur rest)
  have rest: "eval_items ev ctx rest = eval_items ev' ctx rest"
    by (rule Cons.IH, rule Cons.prems) simp_all
  have "ev (strip cur) ctx = ev' (strip cur) ctx"
    by (intro Cons.prems[of cur]) (simp_all add: length_strip_le)
  then show ?case by (simp add: rest cong: sum.case_cong)
qed

lemma inner_shorter: "strip (inner_of expr) \<noteq> [] \<Longrightarrow> length (strip (inner_of expr)) < length expr"
proof -
  assume a: "strip (inner_of expr) \<noteq> []"
  then have "inner_of expr \<noteq> []" by (auto simp: strip_def)
  then have "length (inner_of expr) > 0" by simp
  then have "length expr \<ge> 3" by (simp add: inner_of_def)
  moreover have "length (strip (inner_of expr)) \<le> length expr - 2"
    using length_strip_le[of "inner_of expr"] length_inner_of_le[of expr] by linarith
  ultimately show ?thesis by linarith
qed

lemma eval_object_cong [fundef_cong]:
  assumes "expr = expr'" "ctx = ctx'"
    and "\<And>s c. length s < length expr' \<Longrightarrow> ev s c = ev' s c"
  shows "eval_object ev expr ctx = eval_object ev' expr' ctx'"
proof (cases "strip (inner_of expr') = []")
  case True
  with assms show ?thesis by (simp add: eval_object_def)
next
  case False
  obtain ps l where sp: "split_top ''{['' ''}]'' (strip (inner_of expr')) 0 [] = (ps, l)"
    by fastforce
  from split_top_lengths[OF sp] inner_shorter[OF False]
  have b: "\<forall>p \<in> set ps. length p < length expr'" "length l < length expr'" by auto
  have "eval_entries ev ctx'
          (filter (\<lambda>current. contains current '':'') ps
           @ (if strip l \<noteq> [] \<and> contains l '':'' then [l] else [])) []
      = eval_entries ev' ctx'
          (filter (\<lambda>current. contains current '':'') ps
           @ (if strip l \<noteq> [] \<and> contains l '':'' then [l] else [])) []"
    by (rule eval_entries_cong, rule assms(3)) (use b in \<open>auto split: if_splits\<close>)
  with False sp assms(1,2) show ?thesis by (simp add: eval_object_def)
qed

lemma eval_array_cong [fundef_cong]:
  assumes "expr = expr'" "ctx = ctx'"
    and "\<And>s c. length s < length expr' \<Longrightarrow> ev s c = ev' s c"
  shows "eval_array ev expr ctx = eval_array ev' expr' ctx'"
proof (cases "strip (inner_of expr') = []")
  case True
  with assms show ?thesis by (simp add: eval_array_def)
next
  case False
  obtain ps l where sp: "split_top ''{['' ''}]'' (strip (inner_of expr')) 0 [] = (ps, l)"
    by fastforce
  from split_top_lengths[OF sp] inner_shorter[OF False]
  have b: "\<forall>p \<in> set ps. length p < length expr'" "length l < length expr'" by auto
  have "eval_items ev ctx' (ps @ (if strip l \<noteq> [] then [l] else []))
      = eval_items ev' ctx' (ps @ (if strip l \<noteq> [] then [l] else []))"
    by (rule eval_items_cong, rule assms(3)) (use b in \<open>auto split: if_splits\<close>)
  with False sp assms(1,2) show ?thesis by (simp add: eval_array_def)
qed

lemma find_loop_bound:
  "find_loop target rm s i d found = r \<Longrightarrow>
     r = found \<or> (int i \<le> r \<and> r + int (length target) \<le> int i + int (length s))"
proof (induction s arbitrary: i d found)
  case Nil
  then show ?case by simp
next
  case (Cons c rest)
  show ?case
  proof (cases "length (c # rest) < length target")
    case True
    with Cons.prems show ?thesis by simp
  next
    case long: False
    consider (op) "c \<in> set ''([{''" | (cl) "c \<notin> set ''([{''" "c \<in> set '')]}''"
      | (hit) "c \<notin> set ''([{''" "c \<notin> set '')]}''" "d = 0 \<and> take (length target) (c # rest) = target"
      | (miss) "c \<notin> set ''([{''" "c \<notin> set '')]}''" "\<not> (d = 0 \<and> take (length target) (c # rest) = target)"
      by blast
    then show ?thesis
    proof cases
      case op
      with long Cons.prems have "find_loop target rm rest (Suc i) (d + 1) found = r" by simp
      from Cons.IH[OF this] show ?thesis by auto
    next
      case cl
      with long Cons.prems have "find_loop target rm rest (Suc i) (d - 1) found = r" by simp
      from Cons.IH[OF this] show ?thesis by auto
    next
      case hit
      show ?thesis
      proof (cases rm)
        case True
        with hit long Cons.prems have "find_loop target rm rest (Suc i) d (int i) = r" by simp
        from Cons.IH[OF this] long show ?thesis by auto
      next
        case False
        with hit long Cons.prems have "r = int i" by simp
        with long show ?thesis by auto
      qed
    next
      case miss
      with long Cons.prems have "find_loop target rm rest (Suc i) d found = r" by auto
      from Cons.IH[OF this] show ?thesis by auto
    qed
  qed
qed

lemma find_at_depth_0_bound:
  "0 \<le> find_at_depth_0 expr target rm \<Longrightarrow>
     nat (find_at_depth_0 expr target rm) + length target \<le> length expr"
  using find_loop_bound[of target rm expr 0 0 "- 1" "find_at_depth_0 expr target rm"]
  by (auto simp: find_at_depth_0_def)

lemma first_comparison_bound:
  "first_comparison ops expr = Some (op, f, idx) \<Longrightarrow>
     idx + length op \<le> length expr \<and> (op, f) \<in> set ops"
proof (induction ops)
  case Nil
  then show ?case by simp
next
  case (Cons a ops)
  obtain opn g where a: "a = (opn, g)" by (cases a)
  show ?case
  proof (cases "contains expr opn \<and> find_at_depth_0 expr opn False \<ge> 0")
    case True
    with Cons.prems a have "op = opn" "f = g" "idx = nat (find_at_depth_0 expr opn False)" by auto
    with True a find_at_depth_0_bound[of expr opn False] show ?thesis by auto
  next
    case False
    with Cons.prems a have "first_comparison ops expr = Some (op, f, idx)" by auto
    from Cons.IH[OF this] show ?thesis by auto
  qed
qed

lemma first_comparison_cmp_ops:
  assumes "first_comparison cmp_ops expr = Some (op, f, idx)"
  shows "idx < length expr" and "length (drop (idx + length op) expr) < length expr"
proof -
  from first_comparison_bound[OF assms] have b: "idx + length op \<le> length expr" "(op, f) \<in> set cmp_ops"
    by auto
  from b(2) have "op \<noteq> []" by (auto simp: cmp_ops_def)
  with b(1) show "idx < length expr" "length (drop (idx + length op) expr) < length expr"
    by (cases op; simp)+
qed

lemma logical_at_bound:
  "logical_at expr op = Some idx \<Longrightarrow> idx + length op \<le> length expr"
  using find_at_depth_0_bound[of expr op False]
  by (auto simp: logical_at_def split: if_splits)

lemma first_arith_bound:
  "first_arith ops expr = Some (op, f, l, r) \<Longrightarrow> length l < length expr \<and> length r < length expr"
proof (induction ops)
  case Nil
  then show ?case by simp
next
  case (Cons a ops)
  obtain opn g where a: "a = (opn, g)" by (cases a)
  let ?sp = "'' '' @ opn @ '' ''"
  let ?i = "nat (find_at_depth_0 expr ?sp True)"
  show ?case
  proof (cases "contains expr ?sp \<and> find_at_depth_0 expr ?sp True \<ge> 0
         \<and> strip (take ?i expr) \<noteq> [] \<and> strip (drop (?i + length ?sp) expr) \<noteq> []")
    case True
    with Cons.prems a have lr: "l = strip (take ?i expr)" "r = strip (drop (?i + length ?sp) expr)"
      by (auto simp: Let_def)
    from True find_at_depth_0_bound[of expr ?sp True] have b: "?i + length ?sp \<le> length expr" by simp
    have "length l \<le> ?i" using length_strip_le[of "take ?i expr"] lr by simp
    moreover have "length r \<le> length expr - (?i + length ?sp)"
      using length_strip_le[of "drop (?i + length ?sp) expr"] lr by simp
    ultimately show ?thesis using b by simp
  next
    case False
    with Cons.prems a have "first_arith ops expr = Some (op, f, l, r)" by (auto simp: Let_def)
    from Cons.IH[OF this] show ?thesis .
  qed
qed

lemma eval_ternary_cong [fundef_cong]:
  assumes "expr = expr'" "ctx = ctx'"
    and "\<And>s c. length s < length expr' \<Longrightarrow> ev s c = ev' s c"
  shows "eval_ternary ev H expr ctx = eval_ternary ev' H expr' ctx'"
proof (cases "find_sub ''?'' expr'")
  case None
  with assms(1,2) show ?thesis by (simp add: eval_ternary_def)
next
  case (Some q)
  from find_sub_bound[OF Some] have q: "q < length expr'" by simp
  have "\<And>c. ev (take q expr') ctx' = ev' (take q expr') ctx'"
       "\<And>c. ev (slice expr' (q + 1) c) ctx' = ev' (slice expr' (q + 1) c) ctx'"
       "\<And>c. ev (drop (c + 1) expr') ctx' = ev' (drop (c + 1) expr') ctx'"
    using q by (auto intro!: assms(3) simp: slice_def)
  with Some assms(1,2) show ?thesis
    by (simp add: eval_ternary_def cong: sum.case_cong option.case_cong)
qed

lemma eval_index_access_cong [fundef_cong]:
  assumes "expr = expr'" "ctx = ctx'"
    and "\<And>s c. length s < length expr' \<Longrightarrow> ev s c = ev' s c"
  shows "eval_index_access ev H expr ctx = eval_index_access ev' H expr' ctx'"
proof (cases "find_sub ''['' expr'")
  case None
  with assms(1,2) show ?thesis by (simp add: eval_index_access_def)
next
  case (Some b)
  from find_sub_bound[OF Some] have b: "b < length expr'" by simp
  have "ev (take b expr') ctx' = ev' (take b expr') ctx'"
       "ev (slice expr' (b + 1) (length expr' - 1)) ctx' = ev' (slice expr' (b + 1) (length expr' - 1)) ctx'"
    using b by (auto intro!: assms(3) simp: slice_def)
  with Some assms(1,2) show ?thesis
    by (simp add: eval_index_access_def cong: sum.case_cong)
qed

lemma parse_expr_with_cong:
  assumes "\<And>s c. length s < length expr \<Longrightarrow> ev s c = ev' s c"
  shows "parse_expr_with ev H expr = parse_expr_with ev' H expr"
proof (cases "find_sub ''=>'' expr")
  case None
  then show ?thesis by (intro ext) (simp add: parse_expr_with_def split_once_def)
next
  case (Some i)
  from find_sub_bound[OF Some] have i: "i + 2 \<le> length expr" by simp
  have "length (strip (drop (i + 2) expr)) < length expr"
    using length_strip_le[of "drop (i + 2) expr"] i by simp
  then have "\<And>c. ev (strip (drop (i + 2) expr)) c = ev' (strip (drop (i + 2) expr)) c"
    by (rule assms)
  with Some show ?thesis by (intro ext) (simp add: parse_expr_with_def split_once_def)
qed

lemma split_args_lengths: "p \<in> set (split_args s) \<Longrightarrow> length p \<le> length s"
proof -
  assume p: "p \<in> set (split_args s)"
  obtain ps l where sp: "split_top ''({['' '')}]'' s 0 [] = (ps, l)" by fastforce
  from split_top_lengths[OF sp] have b: "\<forall>q \<in> set ps. length q \<le> length s" "length l \<le> length s"
    by auto
  from p sp have "p \<in> strip ` set ps \<or> p = strip l" by (auto simp: split_args_def split: if_splits)
  then show ?thesis
  proof
    assume "p \<in> strip ` set ps"
    then obtain q where "q \<in> set ps" "p = strip q" by auto
    with b(1) length_strip_le[of q] show ?thesis by fastforce
  next
    assume "p = strip l"
    with b(2) length_strip_le[of l] show ?thesis by simp
  qed
qed

lemma eval_function_call_cong [fundef_cong]:
  assumes "expr = expr'" "ctx = ctx'"
    and "\<And>s c. length s < length expr' \<Longrightarrow> ev s c = ev' s c"
  shows "eval_function_call ev H expr ctx = eval_function_call ev' H expr' ctx'"
proof (cases "find_sub ''('' expr'")
  case None
  with assms(1,2) show ?thesis by (simp add: eval_function_call_def)
next
  case (Some p)
  let ?args = "slice expr' (p + 1) (length expr' - 1)"
  from find_sub_bound[OF Some] have p: "p < length expr'" by simp
  then have args: "length ?args < length expr'" by (simp add: slice_def)
  have a: "ev ?args ctx' = ev' ?args ctx'" by (rule assms(3)[OF args])
  have parts: "\<And>q c. q \<in> set (split_args ?args) \<Longrightarrow> ev q c = ev' q c"
    using split_args_lengths args by (intro assms(3)) fastforce
  have pe: "\<And>q. q \<in> set (split_args ?args) \<Longrightarrow> parse_expr_with ev H q = parse_expr_with ev' H q"
  proof (rule parse_expr_with_cong)
    fix q and s :: string and c :: "'a ctx" assume "q \<in> set (split_args ?args)" "length s < length q"
    with split_args_lengths[of q ?args] args show "ev s c = ev' s c" by (intro assms(3)) simp
  qed
  show ?thesis
  proof (cases "split_args ?args")
    case Nil
    with Some a assms(1,2) show ?thesis
      by (simp add: eval_function_call_def Let_def cong: sum.case_cong)
  next
    case (Cons p0 ps)
    have e0: "ev p0 ctx' = ev' p0 ctx'" using parts[of p0 ctx'] Cons by simp
    show ?thesis
    proof (cases ps)
      case Nil
      with Cons Some a e0 assms(1,2) show ?thesis
        by (simp add: eval_function_call_def Let_def cong: sum.case_cong)
    next
      case (Cons p1 rest)
      have "parse_expr_with ev H p1 = parse_expr_with ev' H p1"
        using pe[of p1] Cons \<open>split_args ?args = p0 # ps\<close> by simp
      with Cons \<open>split_args ?args = p0 # ps\<close> Some a e0 assms(1,2) show ?thesis
        by (simp add: eval_function_call_def Let_def cong: sum.case_cong)
    qed
  qed
qed

lemma lt_strip: "length s < length (strip e) \<Longrightarrow> length s < length e"
  using length_strip_le[of e] by simp

lemma first_comparison_strip:
  assumes "first_comparison cmp_ops (strip e) = Some (op, f, idx)"
  shows "min (length (strip e)) idx < length e" "length (strip e) - (idx + length op) < length e"
  using first_comparison_cmp_ops[OF assms] length_strip_le[of e] by simp_all

lemma logical_at_strip:
  assumes "logical_at (strip e) op = Some idx" "length op = 4"
  shows "min (length (strip e)) idx < length e" "length (strip e) - (idx + 4) < length e"
  using logical_at_bound[OF assms(1)] assms(2) length_strip_le[of e] by simp_all

lemma first_arith_strip:
  assumes "first_arith arith_ops (strip e) = Some (op, f, l, r)"
  shows "length l < length e" "length r < length e"
  using first_arith_bound[OF assms] length_strip_le[of e] by simp_all

subsection \<open>\<open>eval_expr\<close>\<close>

text \<open>
  The forms are tried in the order of the source: object literal, array literal, function
  call, ternary, comparison, \<open>&&\<close>, \<open>||\<close>, arithmetic, property access, index access,
  variable, literal.  \<open>a and b\<close> yields \<open>a\<close> when \<open>a\<close> is falsy and \<open>b\<close> otherwise, without
  evaluating \<open>b\<close> in the first case; \<open>a or b\<close> is dual.
\<close>

function eval_expr :: "'f host \<Rightarrow> string \<Rightarrow> 'f ctx \<Rightarrow> 'f res" where
  "eval_expr H expr0 ctx =
     (let expr = strip expr0 in
      if startswith expr ''{'' \<and> endswith expr ''}'' then eval_object (eval_expr H) expr ctx
      else if startswith expr ''['' \<and> endswith expr '']'' then eval_array (eval_expr H) expr ctx
      else if is_function_call expr then eval_function_call (eval_expr H) H expr ctx
      else if is_ternary expr then eval_ternary (eval_expr H) H expr ctx
      else case first_comparison cmp_ops expr of
        Some (op, f, idx) \<Rightarrow>
          (case eval_expr H (take idx expr) ctx of
             Inl e \<Rightarrow> Inl e
           | Inr left \<Rightarrow>
               (case eval_expr H (drop (idx + length op) expr) ctx of
                  Inl e \<Rightarrow> Inl e
                | Inr right \<Rightarrow> py_compare H f left right))
      | None \<Rightarrow>
      (case logical_at expr '' && '' of
        Some idx \<Rightarrow>
          (case eval_expr H (take idx expr) ctx of
             Inl e \<Rightarrow> Inl e
           | Inr left \<Rightarrow>
               if truthy H left then eval_expr H (drop (idx + 4) expr) ctx else Inr left)
      | None \<Rightarrow>
      (case logical_at expr '' || '' of
        Some idx \<Rightarrow>
          (case eval_expr H (take idx expr) ctx of
             Inl e \<Rightarrow> Inl e
           | Inr left \<Rightarrow>
               if truthy H left then Inr left else eval_expr H (drop (idx + 4) expr) ctx)
      | None \<Rightarrow>
      (case first_arith arith_ops expr of
        Some (op, f, left_part, right_part) \<Rightarrow>
          (case eval_expr H left_part ctx of
             Inl e \<Rightarrow> Inl e
           | Inr left \<Rightarrow>
               (case eval_expr H right_part ctx of
                  Inl e \<Rightarrow> Inl e
                | Inr right \<Rightarrow>
                    (case left of
                       VStr s \<Rightarrow>
                         if op = ''+'' then Inr (VStr (s @ py_str H right))
                         else py_arith H f left right
                     | _ \<Rightarrow> py_arith H f left right)))
      | None \<Rightarrow>
          if contains expr ''.'' \<and> (case expr of [] \<Rightarrow> False | c # _ \<Rightarrow> \<not> isdigit c)
          then eval_property_access H expr ctx
          else if contains expr ''['' \<and> endswith expr '']''
          then eval_index_access (eval_expr H) H expr ctx
          else (case ctx expr of Some v \<Rightarrow> Inr v | None \<Rightarrow> Inr (eval_literal H expr))))))"
  by pat_completeness auto
termination
proof (relation "measure (\<lambda>(H, expr, ctx). length expr)", goal_cases)
  case 1
  show ?case by simp
next
  case 2 then show ?case by (simp add: lt_strip)
next
  case 3 then show ?case by (simp add: lt_strip)
next
  case 4 then show ?case by (simp add: lt_strip)
next
  case 5 then show ?case by (simp add: lt_strip)
next
  case 6 then show ?case by (simp add: lt_strip)
next
  case (7 H expr0 ctx x x2 xa y xb ya xc yb)
  then have "first_arith arith_ops (strip expr0) = Some (xa, xb, xc, yb)" by simp
  from first_arith_strip(1)[OF this] 7 show ?case by simp
next
  case (8 H expr0 ctx x x2 xa y xb ya xc yb)
  then have "first_arith arith_ops (strip expr0) = Some (xa, xb, xc, yb)" by simp
  from first_arith_strip(2)[OF this] 8 show ?case by simp
next
  case (9 H expr0 ctx x x2) then show ?case using logical_at_strip(1)[of expr0 "'' || ''"] by simp
next
  case (10 H expr0 ctx x x2) then show ?case using logical_at_strip(2)[of expr0 "'' || ''"] by simp
next
  case (11 H expr0 ctx x x2) then show ?case using logical_at_strip(1)[of expr0 "'' && ''"] by simp
next
  case (12 H expr0 ctx x x2) then show ?case using logical_at_strip(2)[of expr0 "'' && ''"] by simp
next
  case (13 H expr0 ctx x x2 xa y xb ya)
  then have "first_comparison cmp_ops (strip expr0) = Some (xa, xb, ya)" by simp
  from first_comparison_strip(1)[OF this] 13 show ?case by simp
next
  case (14 H expr0 ctx x x2 xa y xb ya)
  then have "first_comparison cmp_ops (strip expr0) = Some (xa, xb, ya)" by simp
  from first_comparison_strip(2)[OF this] 14 show ?case by simp
qed


text \<open>\<open>parse_expr\<close>: the closure that \<open>parse_expr(expr)\<close> returns, applied to an input.\<close>

definition parse_expr :: "'f host \<Rightarrow> string \<Rightarrow> 'f val \<Rightarrow> 'f res" where
  "parse_expr H expr = parse_expr_with (eval_expr H) H expr"

section \<open>The combinators built on expressions (class Primitives)\<close>

definition transform :: "'f host \<Rightarrow> string \<Rightarrow> 'f Block" where
  "transform H f = \<lparr>name = ''transform('' @ f @ '')'', fn = parse_expr H f\<rparr>"

definition merge :: "'f host \<Rightarrow> string \<Rightarrow> 'f Block" where
  "merge H f = \<lparr>name = ''merge('' @ f @ '')'', fn = parse_expr H f\<rparr>"

text \<open>\<open>filter_fn\<close>: only a \<open>list\<close> is filtered element by element (\<open>isinstance(x, list)\<close>).\<close>

definition filter_fn :: "'f host \<Rightarrow> string \<Rightarrow> 'f val \<Rightarrow> 'f res" where
  "filter_fn H predicate x =
     (case x of
        VList items \<Rightarrow>
          (case filter_items H (parse_expr H predicate) items of
             Inl e \<Rightarrow> Inl e
           | Inr ys \<Rightarrow> Inr (VList ys))
      | _ \<Rightarrow>
          (case parse_expr H predicate x of
             Inl e \<Rightarrow> Inl e
           | Inr p \<Rightarrow> Inr (if truthy H p then VSome x else NONE)))"

definition filter_block :: "'f host \<Rightarrow> string \<Rightarrow> 'f Block" where
  "filter_block H predicate =
     \<lparr>name = ''filter('' @ predicate @ '')'', fn = filter_fn H predicate\<rparr>"

text \<open>\<open>branch\<close>: a target is an expression or a block (\<open>then if callable(then) else parse_expr(then)\<close>).\<close>

datatype 'f target = Expr string | Unit "'f Block"

fun target_fn :: "'f host \<Rightarrow> 'f target \<Rightarrow> 'f val \<Rightarrow> 'f res" where
  "target_fn H (Expr e) = parse_expr H e"
| "target_fn H (Unit b) = fn b"

definition branch_fn :: "'f host \<Rightarrow> string \<Rightarrow> 'f target \<Rightarrow> 'f target \<Rightarrow> 'f val \<Rightarrow> 'f res" where
  "branch_fn H condition then_t else_t x =
     (case parse_expr H condition x of
        Inl e \<Rightarrow> Inl e
      | Inr c \<Rightarrow> if truthy H c then target_fn H then_t x else target_fn H else_t x)"

definition branch :: "'f host \<Rightarrow> string \<Rightarrow> 'f target \<Rightarrow> 'f target \<Rightarrow> 'f Block" where
  "branch H condition then_t else_t =
     \<lparr>name = ''branch('' @ condition @ '')'', fn = branch_fn H condition then_t else_t\<rparr>"

text \<open>
  \<open>repeat_fn\<close>: \<open>for _ in range(max_iterations): if not cond(result): break;
  result = block(result)\<close>.  The first argument counts the iterations that \<open>range\<close> has
  left; \<open>range\<close> of a negative number is empty.
\<close>

fun repeat_loop ::
  "'f host \<Rightarrow> nat \<Rightarrow> ('f val \<Rightarrow> 'f res) \<Rightarrow> ('f val \<Rightarrow> 'f res) \<Rightarrow> 'f val \<Rightarrow> 'f res" where
  "repeat_loop H 0 cond body result = Inr result"
| "repeat_loop H (Suc n) cond body result =
     (case cond result of
        Inl e \<Rightarrow> Inl e
      | Inr c \<Rightarrow>
          if \<not> truthy H c then Inr result
          else (case body result of
                  Inl e \<Rightarrow> Inl e
                | Inr result' \<Rightarrow> repeat_loop H n cond body result'))"

definition repeat_fn :: "'f host \<Rightarrow> string \<Rightarrow> 'f Block \<Rightarrow> int \<Rightarrow> 'f val \<Rightarrow> 'f res" where
  "repeat_fn H condition block max_iterations x =
     repeat_loop H (nat max_iterations) (parse_expr H condition) (fn block) x"

definition repeat :: "'f host \<Rightarrow> string \<Rightarrow> 'f Block \<Rightarrow> int \<Rightarrow> 'f Block" where
  "repeat H condition block max_iterations =
     \<lparr>name = ''repeat('' @ condition @ '')'', fn = repeat_fn H condition block max_iterations\<rparr>"

text \<open>The default of \<open>max_iterations\<close>.\<close>

definition default_max_iterations :: int where
  "default_max_iterations = 1000"

section \<open>Result handling (runtime/io\_primitives.py)\<close>

text \<open>\<open>unwrap_fn\<close>: \<open>raise Exception(f"Unwrap failed: {result.error}")\<close>; the exception
  holds the formatted text.\<close>

definition unwrap_fn :: "'f host \<Rightarrow> 'f val \<Rightarrow> 'f res" where
  "unwrap_fn H result =
     (case result of
        VOk v \<Rightarrow> Inr v
      | VErr e \<Rightarrow> Inl (Exception (''Unwrap failed: '' @ py_str H e))
      | _ \<Rightarrow> Inr result)"

definition unwrap :: "'f host \<Rightarrow> 'f Block" where
  "unwrap H = \<lparr>name = ''unwrap()'', fn = unwrap_fn H\<rparr>"

section \<open>A host with exact floats\<close>

text \<open>
  One instance of the record \<open>host\<close>, used where a theorem is shown at a concrete input: its
  floats are rational numbers and its arithmetic on them is exact.  It agrees with
  IEEE-754 binary64 wherever the exact result is representable.
\<close>

definition as_rat :: "rat val \<Rightarrow> rat option" where
  "as_rat v = (case v of VInt i \<Rightarrow> Some (of_int i) | VBool b \<Rightarrow> Some (if b then 1 else 0)
               | VFloat x \<Rightarrow> Some x | _ \<Rightarrow> None)"

definition exact_arith :: "arith_op \<Rightarrow> rat val \<Rightarrow> rat val \<Rightarrow> rat res" where
  "exact_arith op l r =
     (case (as_rat l, as_rat r) of
        (Some a, Some b) \<Rightarrow>
          (case op of
             Add \<Rightarrow> Inr (VFloat (a + b))
           | Sub \<Rightarrow> Inr (VFloat (a - b))
           | Mul \<Rightarrow> Inr (VFloat (a * b))
           | TrueDiv \<Rightarrow> if b = 0 then Inl ZeroDivisionError else Inr (VFloat (a / b))
           | Mod \<Rightarrow> if b = 0 then Inl ZeroDivisionError
                    else Inr (VFloat (a - b * of_int (floor (a / b)))))
      | _ \<Rightarrow> Inl TypeError)"

definition exact_compare :: "cmp_op \<Rightarrow> rat val \<Rightarrow> rat val \<Rightarrow> rat res" where
  "exact_compare op l r =
     (case (as_rat l, as_rat r) of
        (Some a, Some b) \<Rightarrow>
          Inr (VBool (case op of Eq \<Rightarrow> a = b | Ne \<Rightarrow> a \<noteq> b | Ge \<Rightarrow> a \<ge> b
                      | Le \<Rightarrow> a \<le> b | Gt \<Rightarrow> a > b | Lt \<Rightarrow> a < b))
      | _ \<Rightarrow> (case op of Eq \<Rightarrow> Inr (VBool (l = r)) | Ne \<Rightarrow> Inr (VBool (l \<noteq> r))
               | _ \<Rightarrow> Inl TypeError))"

definition exact_host :: "rat host" where
  "exact_host =
     \<lparr>float_of_str = (\<lambda>s. None), float_truthy = (\<lambda>x. x \<noteq> 0), obj_truthy = (\<lambda>n. True),
      host_arith = exact_arith, host_compare = exact_compare,
      host_str = (\<lambda>v. ''?''), host_int = (\<lambda>v. Inl TypeError),
      host_getattr = (\<lambda>v s. None), obj_getattr = (\<lambda>n s. Inr None), host_builtin = (\<lambda>s v. Inl TypeError),
      host_iter = (\<lambda>n. Inl TypeError), host_len = (\<lambda>n. None)\<rparr>"

section \<open>Evaluating a given expression\<close>

text \<open>
  Which branch \<open>eval_expr\<close> takes depends on the text alone.  \<open>form_of\<close> names the branch and
  the pieces of text that the branch evaluates, \<open>lit_of\<close> does the same for \<open>eval_literal\<close>;
  both are computed once per expression and \<open>eval_expr_form\<close> replaces the cascade of tests.
\<close>

datatype form =
    FObject string
  | FArray string
  | FCall string
  | FTernary string
  | FCompare cmp_op string string
  | FAnd string string
  | FOr string string
  | FArith string arith_op string string
  | FProperty string
  | FIndex string
  | FAtom string

definition form_of :: "string \<Rightarrow> form" where
  "form_of expr0 =
     (let expr = strip expr0 in
      if startswith expr ''{'' \<and> endswith expr ''}'' then FObject expr
      else if startswith expr ''['' \<and> endswith expr '']'' then FArray expr
      else if is_function_call expr then FCall expr
      else if is_ternary expr then FTernary expr
      else case first_comparison cmp_ops expr of
        Some (op, f, idx) \<Rightarrow> FCompare f (take idx expr) (drop (idx + length op) expr)
      | None \<Rightarrow>
      (case logical_at expr '' && '' of
        Some idx \<Rightarrow> FAnd (take idx expr) (drop (idx + 4) expr)
      | None \<Rightarrow>
      (case logical_at expr '' || '' of
        Some idx \<Rightarrow> FOr (take idx expr) (drop (idx + 4) expr)
      | None \<Rightarrow>
      (case first_arith arith_ops expr of
        Some (op, f, left_part, right_part) \<Rightarrow> FArith op f left_part right_part
      | None \<Rightarrow>
          if contains expr ''.'' \<and> (case expr of [] \<Rightarrow> False | c # _ \<Rightarrow> \<not> isdigit c)
          then FProperty expr
          else if contains expr ''['' \<and> endswith expr '']'' then FIndex expr
          else FAtom expr))))"

declare eval_expr.simps [simp del]

lemma eval_expr_form:
  "eval_expr H expr0 ctx =
     (case form_of expr0 of
        FObject expr \<Rightarrow> eval_object (eval_expr H) expr ctx
      | FArray expr \<Rightarrow> eval_array (eval_expr H) expr ctx
      | FCall expr \<Rightarrow> eval_function_call (eval_expr H) H expr ctx
      | FTernary expr \<Rightarrow> eval_ternary (eval_expr H) H expr ctx
      | FCompare f l r \<Rightarrow>
          (case eval_expr H l ctx of
             Inl e \<Rightarrow> Inl e
           | Inr left \<Rightarrow>
               (case eval_expr H r ctx of
                  Inl e \<Rightarrow> Inl e
                | Inr right \<Rightarrow> py_compare H f left right))
      | FAnd l r \<Rightarrow>
          (case eval_expr H l ctx of
             Inl e \<Rightarrow> Inl e
           | Inr left \<Rightarrow> if truthy H left then eval_expr H r ctx else Inr left)
      | FOr l r \<Rightarrow>
          (case eval_expr H l ctx of
             Inl e \<Rightarrow> Inl e
           | Inr left \<Rightarrow> if truthy H left then Inr left else eval_expr H r ctx)
      | FArith op f l r \<Rightarrow>
          (case eval_expr H l ctx of
             Inl e \<Rightarrow> Inl e
           | Inr left \<Rightarrow>
               (case eval_expr H r ctx of
                  Inl e \<Rightarrow> Inl e
                | Inr right \<Rightarrow>
                    (case left of
                       VStr s \<Rightarrow>
                         if op = ''+'' then Inr (VStr (s @ py_str H right))
                         else py_arith H f left right
                     | _ \<Rightarrow> py_arith H f left right)))
      | FProperty expr \<Rightarrow> eval_property_access H expr ctx
      | FIndex expr \<Rightarrow> eval_index_access (eval_expr H) H expr ctx
      | FAtom expr \<Rightarrow> (case ctx expr of Some v \<Rightarrow> Inr v | None \<Rightarrow> Inr (eval_literal H expr)))"
proof -
  let ?e = "strip expr0"
  let ?c1 = "startswith ?e ''{'' \<and> endswith ?e ''}''"
  let ?c2 = "startswith ?e ''['' \<and> endswith ?e '']''"
  show ?thesis
  proof (cases ?c1)
    case True
    then show ?thesis by (subst eval_expr.simps) (auto simp add: form_of_def Let_def)
  next
    case n1: False
    show ?thesis
    proof (cases ?c2)
      case True
      with n1 show ?thesis by (subst eval_expr.simps) (auto simp add: form_of_def Let_def)
    next
      case n2: False
      show ?thesis
      proof (cases "is_function_call ?e")
        case True
        with n1 n2 show ?thesis by (subst eval_expr.simps) (auto simp add: form_of_def Let_def)
      next
        case n3: False
        show ?thesis
        proof (cases "is_ternary ?e")
          case True
          with n1 n2 n3 show ?thesis by (subst eval_expr.simps) (auto simp add: form_of_def Let_def)
        next
          case n4: False
          show ?thesis
          proof (cases "first_comparison cmp_ops ?e")
            case (Some a)
            then obtain op f idx where "first_comparison cmp_ops ?e = Some (op, f, idx)"
              by (cases a) auto
            with n1 n2 n3 n4 show ?thesis
              by (subst eval_expr.simps) (auto simp add: form_of_def Let_def)
          next
            case n5: None
            show ?thesis
            proof (cases "logical_at ?e '' && ''")
              case (Some idx)
              with n1 n2 n3 n4 n5 show ?thesis
                by (subst eval_expr.simps) (auto simp add: form_of_def Let_def)
            next
              case n6: None
              show ?thesis
              proof (cases "logical_at ?e '' || ''")
                case (Some idx)
                with n1 n2 n3 n4 n5 n6 show ?thesis
                  by (subst eval_expr.simps) (auto simp add: form_of_def Let_def)
              next
                case n7: None
                show ?thesis
                proof (cases "first_arith arith_ops ?e")
                  case (Some a)
                  then obtain op f l r where "first_arith arith_ops ?e = Some (op, f, l, r)"
                    by (cases a) auto
                  with n1 n2 n3 n4 n5 n6 n7 show ?thesis
                    by (subst eval_expr.simps) (auto simp add: form_of_def Let_def)
                next
                  case n8: None
                  show ?thesis
                  proof (cases "contains ?e ''.'' \<and> (case ?e of [] \<Rightarrow> False | c # _ \<Rightarrow> \<not> isdigit c)")
                    case True
                    with n1 n2 n3 n4 n5 n6 n7 n8 show ?thesis
                      by (subst eval_expr.simps) (auto simp add: form_of_def Let_def)
                  next
                    case n9: False
                    show ?thesis
                    proof (cases "contains ?e ''['' \<and> endswith ?e '']''")
                      case True
                      with n1 n2 n3 n4 n5 n6 n7 n8 n9 show ?thesis
                        by (subst eval_expr.simps) (auto simp add: form_of_def Let_def)
                    next
                      case False
                      with n1 n2 n3 n4 n5 n6 n7 n8 n9 show ?thesis
                        by (subst eval_expr.simps) (auto simp add: form_of_def Let_def)
                    qed
                  qed
                qed
              qed
            qed
          qed
        qed
      qed
    qed
  qed
qed

datatype lit = LBool bool | LNull | LText string | LInt int | LFloat string | LStr string

definition lit_of :: "string \<Rightarrow> lit" where
  "lit_of s0 =
     (let s = strip s0 in
      if s = ''true'' then LBool True
      else if s = ''false'' then LBool False
      else if s = ''null'' then LNull
      else if startswith s dquote \<and> endswith s dquote then LText (inner_of s)
      else if startswith s squote \<and> endswith s squote then LText (inner_of s)
      else case int_of_str s of
             Some i \<Rightarrow> LInt i
           | None \<Rightarrow> if s \<noteq> [] \<and> list_all float_char s then LFloat s else LStr s)"

lemma eval_literal_lit:
  "eval_literal H s0 =
     (case lit_of s0 of
        LBool b \<Rightarrow> VBool b
      | LNull \<Rightarrow> NONE
      | LText t \<Rightarrow> VStr t
      | LInt i \<Rightarrow> VInt i
      | LFloat s \<Rightarrow> (case float_of_str H s of Some x \<Rightarrow> VFloat x | None \<Rightarrow> VStr s)
      | LStr s \<Rightarrow> VStr s)"
  by (simp add: eval_literal_def lit_of_def py_float_def Let_def split: option.split)

definition lambda_of :: "string \<Rightarrow> (string list \<times> string) option" where
  "lambda_of expr =
     (case split_once expr ''=>'' of
        [params, body] \<Rightarrow> Some (param_names (strip params), strip body)
      | _ \<Rightarrow> None)"

lemma parse_expr_lambda:
  "lambda_of expr = Some (names, body) \<Longrightarrow>
     parse_expr H expr input = eval_expr H body (build_ctx names input)"
  by (auto simp: lambda_of_def parse_expr_def parse_expr_with_def split: list.splits)

definition ternary_parts :: "string \<Rightarrow> (string \<times> string \<times> string) option" where
  "ternary_parts expr =
     (case find_sub ''?'' expr of
        None \<Rightarrow> None
      | Some q_idx \<Rightarrow>
          (case rindex expr CHR '':'' of
             None \<Rightarrow> None
           | Some c_idx \<Rightarrow>
               Some (take q_idx expr, slice expr (q_idx + 1) c_idx, drop (c_idx + 1) expr)))"

lemma eval_ternary_parts:
  "ternary_parts expr = Some (c, t, e) \<Longrightarrow>
     eval_ternary ev H expr ctx =
       (case ev c ctx of
          Inl x \<Rightarrow> Inl x
        | Inr cond \<Rightarrow>
            (case ev t ctx of
               Inl x \<Rightarrow> Inl x
             | Inr then_val \<Rightarrow>
                 (case ev e ctx of
                    Inl x \<Rightarrow> Inl x
                  | Inr else_val \<Rightarrow> Inr (if truthy H cond then then_val else else_val))))"
  by (auto simp: ternary_parts_def eval_ternary_def split: option.splits cong: sum.case_cong)

definition index_parts :: "string \<Rightarrow> (string \<times> string) option" where
  "index_parts expr =
     (case find_sub ''['' expr of
        None \<Rightarrow> None
      | Some b \<Rightarrow> Some (take b expr, slice expr (b + 1) (length expr - 1)))"

lemma eval_index_parts:
  "index_parts expr = Some (b, i) \<Longrightarrow>
     eval_index_access ev H expr ctx =
       (case ev b ctx of
          Inl e \<Rightarrow> Inl e
        | Inr base \<Rightarrow>
            (case ev i ctx of
               Inl e \<Rightarrow> Inl e
             | Inr index \<Rightarrow>
                 (case base of
                    VList xs \<Rightarrow> index_sequence H xs index
                  | VTuple xs \<Rightarrow> index_sequence H xs index
                  | VDict kvs \<Rightarrow> dict_get kvs index
                  | _ \<Rightarrow> Inr NONE)))"
  by (auto simp: index_parts_def eval_index_access_def split: option.splits cong: sum.case_cong)

section \<open>Properties of the combinators\<close>

subsection \<open>pipe\<close>

text \<open>
  C6.  \<open>pipe\<close> with no blocks returns its input unchanged, and for all blocks \<open>A\<close>, \<open>B\<close>, \<open>C\<close>
  and every input \<open>x\<close> the two nestings \<open>pipe(pipe(A, B), C)\<close> and \<open>pipe(A, pipe(B, C))\<close>
  give the same result, which is \<open>C(B(A(x)))\<close>; an exception raised by a block ends the
  chain in all three.
\<close>

theorem pipe_monoid:
  "fn (pipe []) x = Inr x
   \<and> fn (pipe [pipe [A, B], C]) x = fn (pipe [A, pipe [B, C]]) x
   \<and> fn (pipe [A, pipe [B, C]]) x =
       (case fn A x of
          Inl e \<Rightarrow> Inl e
        | Inr a \<Rightarrow> (case fn B a of Inl e \<Rightarrow> Inl e | Inr b \<Rightarrow> fn C b))"
  by (simp add: pipe_def split: sum.splits)

subsection \<open>parallel and fanout\<close>

lemma collect_all:
  "length vs = length blocks \<Longrightarrow> (\<And>i. i < length blocks \<Longrightarrow> fn (blocks ! i) x = Inr (vs ! i))
     \<Longrightarrow> collect blocks x = Inr vs"
proof (induction blocks arbitrary: vs)
  case Nil
  then show ?case by simp
next
  case (Cons b bs)
  then obtain v vs' where vs: "vs = v # vs'" by (cases vs) auto
  from Cons.prems(2)[of 0] vs have h: "fn b x = Inr v" by simp
  have "collect bs x = Inr vs'"
  proof (rule Cons.IH)
    show "length vs' = length bs" using Cons.prems(1) vs by simp
    fix i assume "i < length bs"
    then show "fn (bs ! i) x = Inr (vs' ! i)" using Cons.prems(2)[of "Suc i"] vs by simp
  qed
  with h vs show ?case by simp
qed

text \<open>
  C7.  When the blocks \<open>U1..Un\<close> return the values \<open>v1..vn\<close> on the input \<open>x\<close>, the block
  built by \<open>parallel\<close>, and by its alias \<open>fanout\<close>, returns on \<open>x\<close> the tuple \<open>(v1, .., vn)\<close>:
  \<open>n\<close> components, the \<open>i\<close>-th being \<open>Ui(x)\<close>, every block applied to the same \<open>x\<close>.
\<close>

theorem parallel_ordered:
  assumes "length vs = length blocks"
    and "\<forall>i < length blocks. fn (blocks ! i) x = Inr (vs ! i)"
  shows "fn (parallel blocks) x = Inr (VTuple vs) \<and> fn (fanout blocks) x = Inr (VTuple vs)"
  using collect_all[OF assms(1), of x] assms(2)
  by (simp add: parallel_def fanout_def parallel_fn_def)

lemma transform_samples:
  "fn (transform exact_host ''x => x + 1'') (VInt 5) = Inr (VInt 6)"
  "fn (transform exact_host ''x => x * 2'') (VInt 5) = Inr (VInt 10)"
  "fn (transform exact_host ''x => x - 3'') (VInt 5) = Inr (VInt 2)"
  by code_simp+

text \<open>C7 at three transforms and the input 5.\<close>

theorem parallel_ordered_witness:
  "fn (parallel [transform exact_host ''x => x + 1'', transform exact_host ''x => x * 2'',
                 transform exact_host ''x => x - 3'']) (VInt 5)
     = Inr (VTuple [VInt 6, VInt 10, VInt 2])
   \<and> fn (fanout [transform exact_host ''x => x + 1'', transform exact_host ''x => x * 2'',
                 transform exact_host ''x => x - 3'']) (VInt 5)
     = Inr (VTuple [VInt 6, VInt 10, VInt 2])"
  using parallel_ordered[of "[VInt 6, VInt 10, VInt 2]"
      "[transform exact_host ''x => x + 1'', transform exact_host ''x => x * 2'',
        transform exact_host ''x => x - 3'']" "VInt 5"]
  by (simp add: transform_samples less_Suc_eq numeral_3_eq_3 nth_Cons')

subsection \<open>unwrap\<close>

text \<open>
  C9, as the code has it.  \<open>unwrap\<close> returns \<open>v\<close> on \<open>Ok(v)\<close>; on \<open>Err(e)\<close> it raises an
  exception whose message is \<open>"Unwrap failed: "\<close> followed by the text \<open>str(e)\<close>; it raises
  if and only if its input is an \<open>Err\<close>; and every input that is neither \<open>Ok\<close> nor \<open>Err\<close>
  is returned unchanged.
\<close>

theorem unwrap_result:
  "fn (unwrap H) (VOk v) = Inr v
   \<and> fn (unwrap H) (VErr e) = Inl (Exception (''Unwrap failed: '' @ py_str H e))
   \<and> ((\<exists>x. fn (unwrap H) r = Inl x) \<longleftrightarrow> (\<exists>e. r = VErr e))
   \<and> ((\<forall>v. r \<noteq> VOk v) \<and> (\<forall>e. r \<noteq> VErr e) \<longrightarrow> fn (unwrap H) r = Inr r)"
  by (cases r) (simp_all add: unwrap_def unwrap_fn_def)

text \<open>C9 at \<open>Ok(3)\<close>, \<open>Err("NotFound")\<close> and the plain value 3.\<close>

theorem unwrap_result_witness:
  "fn (unwrap exact_host) (VOk (VInt 3)) = Inr (VInt 3)
   \<and> fn (unwrap exact_host) (VErr (VStr ''NotFound'')) = Inl (Exception ''Unwrap failed: NotFound'')
   \<and> fn (unwrap exact_host) (VInt 3) = Inr (VInt 3)"
  using unwrap_result[of exact_host "VInt 3" "VStr ''NotFound''" "VInt 3"]
  by (simp add: py_str_def)

lemma str_of_int_1: "str_of_int 1 = ''1''"
  by code_simp

text \<open>
  C9 as stated fails: the failure does not carry \<open>e\<close>.  The errors \<open>1\<close> (a number) and \<open>"1"\<close>
  (a text) are different values and \<open>unwrap\<close> raises the very same exception on both.
\<close>

theorem unwrap_failure_text_only:
  "fn (unwrap exact_host) (VErr (VInt 1)) = fn (unwrap exact_host) (VErr (VStr ''1''))
   \<and> (VInt 1 :: rat val) \<noteq> VStr ''1''"
  by (simp add: unwrap_def unwrap_fn_def py_str_def str_of_int_1)

subsection \<open>Binding the parameters of a lambda\<close>

lemma bind_params_other:
  "k \<notin> set names \<Longrightarrow> bind_params names i xs ctx k = ctx k"
  by (induction names arbitrary: i ctx) auto

lemma bind_params_beyond:
  "length xs \<le> i \<Longrightarrow> k \<in> set names \<Longrightarrow> bind_params names i xs ctx k = Some NONE"
proof (induction names arbitrary: i ctx)
  case Nil
  then show ?case by simp
next
  case (Cons n ns)
  show ?case
  proof (cases "k \<in> set ns")
    case True
    with Cons.IH[of "Suc i"] Cons.prems(1) show ?thesis by simp
  next
    case False
    with Cons.prems have "k = n" by simp
    with False Cons.prems(1) show ?thesis by (simp add: bind_params_other)
  qed
qed

lemma bind_params_surplus:
  "j < length names \<Longrightarrow> length xs \<le> i + j \<Longrightarrow>
     bind_params names i xs ctx (names ! j) = Some NONE"
proof (induction names arbitrary: i j ctx)
  case Nil
  then show ?case by simp
next
  case (Cons n ns)
  show ?case
  proof (cases j)
    case 0
    with Cons.prems bind_params_beyond[of xs i n "n # ns" ctx] show ?thesis by simp
  next
    case (Suc j')
    with Cons.prems Cons.IH[of j' "Suc i"] show ?thesis by simp
  qed
qed

text \<open>
  C10.  Let the parameters of a lambda be a parenthesised comma list of at least two names.
  Invoked on a \<open>list\<close> or \<open>tuple\<close>, the closure evaluates the body in the context that
  \<open>bind_params\<close> builds, no binding step raises, and every parameter whose position is
  at or beyond the length of the input is bound to \<open>NONE\<close>.  Invoked on any other value,
  it evaluates the body in the context that binds the first parameter to the input and
  nothing else.
\<close>

theorem multi_param_binding:
  assumes "split_once expr ''=>'' = [params, body]"
    and "startswith (strip params) ''('' \<and> endswith (strip params) '')''"
    and "names = map strip (split_char CHR '','' (inner_of (strip params)))"
    and "1 < length names"
  shows "((input = VList xs \<or> input = VTuple xs) \<longrightarrow>
            parse_expr H expr input = eval_expr H (strip body) (bind_params names 0 xs Map.empty)
            \<and> (\<forall>i. length xs \<le> i \<and> i < length names \<longrightarrow>
                   bind_params names 0 xs Map.empty (names ! i) = Some NONE))
       \<and> ((\<forall>ys. input \<noteq> VList ys \<and> input \<noteq> VTuple ys) \<longrightarrow>
            parse_expr H expr input = eval_expr H (strip body) (Map.empty(names ! 0 \<mapsto> input)))"
proof -
  from assms(2,3) have pn: "param_names (strip params) = names" by (simp add: param_names_def)
  from assms(4) obtain n m ns where ns: "names = n # m # ns"
    by (cases names; cases "tl names") auto
  have pe: "parse_expr H expr input = eval_expr H (strip body) (build_ctx names input)"
    using assms(1) pn by (simp add: parse_expr_def parse_expr_with_def)
  have seq: "parse_expr H expr input = eval_expr H (strip body) (bind_params names 0 xs Map.empty)"
    if "input = VList xs \<or> input = VTuple xs"
    using that pe ns by (auto simp: build_ctx_def)
  have other: "parse_expr H expr input = eval_expr H (strip body) (Map.empty(names ! 0 \<mapsto> input))"
    if "\<forall>ys. input \<noteq> VList ys \<and> input \<noteq> VTuple ys"
    using that pe ns by (cases input) (auto simp: build_ctx_def)
  show ?thesis using seq other bind_params_surplus[of _ names xs 0 Map.empty] by auto
qed

lemma sample_lambda:
  "split_once ''(a, b) => b'' ''=>'' = [''(a, b) '', '' b'']"
  "startswith (strip ''(a, b) '') ''('' \<and> endswith (strip ''(a, b) '') '')''"
  "map strip (split_char CHR '','' (inner_of (strip ''(a, b) ''))) = [''a'', ''b'']"
  "strip '' b'' = ''b''"
  "form_of ''b'' = FAtom ''b''"
  "lit_of ''b'' = LStr ''b''"
  by code_simp+

text \<open>C10 at \<open>"(a, b) => b"\<close>, on the one-element list \<open>[1]\<close> and on the number 7: the
  unbound \<open>b\<close> of the second call falls through to the literal text \<open>"b"\<close>.\<close>

theorem multi_param_binding_witness:
  "parse_expr exact_host ''(a, b) => b'' (VList [VInt 1]) = Inr NONE
   \<and> parse_expr exact_host ''(a, b) => b'' (VInt 7) = Inr (VStr ''b'')"
  using multi_param_binding[OF sample_lambda(1,2) sample_lambda(3)[symmetric],
      of "VList [VInt 1]" "[VInt 1]" exact_host]
    multi_param_binding[OF sample_lambda(1,2) sample_lambda(3)[symmetric],
      of "VInt 7" "[]" exact_host]
  by (simp add: sample_lambda eval_expr_form eval_literal_lit)

subsection \<open>Property access\<close>

text \<open>
  Reading the parts of a chain one after the other from a value, as the specification
  describes it: a part is read from a Mapping as a key, a missing key giving None, and
  from any other value as an attribute; an attribute that is not there ends the reading
  with None, whatever parts remain.
\<close>

inductive reads_chain :: "'f host \<Rightarrow> 'f val \<Rightarrow> string list \<Rightarrow> 'f val \<Rightarrow> bool" for H where
  chain_end: "reads_chain H v [] v"
| mapping_field:
    "map_of kvs p = Some w \<Longrightarrow> reads_chain H w ps r \<Longrightarrow> reads_chain H (VDict kvs) (p # ps) r"
| mapping_missing:
    "map_of kvs p = None \<Longrightarrow> reads_chain H NONE ps r \<Longrightarrow> reads_chain H (VDict kvs) (p # ps) r"
| attribute:
    "\<forall>kvs. v \<noteq> VDict kvs \<Longrightarrow> py_getattr H v p = Inr (Some w) \<Longrightarrow> reads_chain H w ps r
       \<Longrightarrow> reads_chain H v (p # ps) r"
| unresolved:
    "\<forall>kvs. v \<noteq> VDict kvs \<Longrightarrow> py_getattr H v p = Inr None \<Longrightarrow> reads_chain H v (p # ps) NONE"

text \<open>A host one of whose objects raises on every attribute lookup, as an object with a
  property that raises \<open>RuntimeError\<close> does under \<open>hasattr\<close>.\<close>

definition raising_host :: "rat host" where
  "raising_host = exact_host\<lparr>obj_getattr := (\<lambda>n s. Inl (HostError 0))\<rparr>"

lemma split_char_not_Nil: "split_char c s \<noteq> []"
  by (induction s) (auto split: list.splits)

lemma split_char_plain: "c \<notin> set p \<Longrightarrow> split_char c p = [p]"
  by (induction p) auto

lemma split_char_append: "c \<notin> set p \<Longrightarrow> split_char c (p @ c # rest) = p # split_char c rest"
  by (induction p) auto

lemma split_char_join:
  "list_all (\<lambda>p. c \<notin> set p) (a # parts) \<Longrightarrow> split_char c (join [c] (a # parts)) = a # parts"
proof (induction parts arbitrary: a)
  case Nil
  then show ?case by (simp add: split_char_plain)
next
  case (Cons b parts)
  from Cons.prems have "c \<notin> set a" "list_all (\<lambda>p. c \<notin> set p) (b # parts)" by simp_all
  with Cons.IH[of b] show ?case by (simp add: split_char_append)
qed

lemma access_parts_step:
  assumes "\<forall>kvs. v \<noteq> VDict kvs"
  shows "access_parts H v (p # ps) =
           (case py_getattr H v p of
              Inl e \<Rightarrow> Inl e
            | Inr (Some w) \<Rightarrow> access_parts H w ps
            | Inr None \<Rightarrow> Inr NONE)"
  using assms by (cases v) simp_all

lemma py_getattr_no_raise:
  assumes "\<forall>n part. \<exists>r. obj_getattr H n part = Inr r"
  shows "\<exists>r. py_getattr H v p = Inr r"
  using assms by (cases v) (simp_all add: py_getattr_def)

lemma access_parts_total:
  assumes "\<forall>n part. \<exists>r. obj_getattr H n part = Inr r"
  shows "\<exists>r. access_parts H v parts = Inr r"
proof (induction parts arbitrary: v)
  case Nil
  show ?case by simp
next
  case (Cons p ps)
  show ?case
  proof (cases "\<exists>kvs. v = VDict kvs")
    case True
    then obtain kvs where "v = VDict kvs" by blast
    with Cons.IH show ?thesis by simp
  next
    case False
    then have nd: "\<forall>kvs. v \<noteq> VDict kvs" by simp
    from py_getattr_no_raise[OF assms, of v p] obtain g where g: "py_getattr H v p = Inr g" by blast
    show ?thesis
    proof (cases g)
      case None
      with g show ?thesis by (simp add: access_parts_step[OF nd] del: access_parts.simps(2))
    next
      case (Some w)
      with g Cons.IH[of w] show ?thesis by (simp add: access_parts_step[OF nd] del: access_parts.simps(2))
    qed
  qed
qed

lemma reads_chain_sound: "reads_chain H v parts r \<Longrightarrow> access_parts H v parts = Inr r"
proof (induction rule: reads_chain.induct)
  case (chain_end v)
  show ?case by simp
next
  case (mapping_field kvs p w ps r)
  then show ?case by simp
next
  case (mapping_missing kvs p ps r)
  then show ?case by simp
next
  case (attribute v p w ps r)
  then show ?case by (simp add: access_parts_step del: access_parts.simps(2))
next
  case (unresolved v p ps)
  then show ?case by (simp add: access_parts_step del: access_parts.simps(2))
qed

lemma reads_chain_complete: "access_parts H v parts = Inr r \<Longrightarrow> reads_chain H v parts r"
proof (induction parts arbitrary: v)
  case Nil
  then show ?case by (simp add: chain_end)
next
  case (Cons p ps)
  show ?case
  proof (cases "\<exists>kvs. v = VDict kvs")
    case True
    then obtain kvs where v: "v = VDict kvs" by blast
    show ?thesis
    proof (cases "map_of kvs p")
      case None
      with Cons.prems v have "access_parts H NONE ps = Inr r" by simp
      from Cons.IH[OF this] None v show ?thesis by (simp add: mapping_missing)
    next
      case (Some w)
      with Cons.prems v have "access_parts H w ps = Inr r" by simp
      from Cons.IH[OF this] Some v show ?thesis by (simp add: mapping_field)
    qed
  next
    case False
    then have nd: "\<forall>kvs. v \<noteq> VDict kvs" by simp
    show ?thesis
    proof (cases "py_getattr H v p")
      case (Inl e)
      with Cons.prems show ?thesis by (simp add: access_parts_step[OF nd] del: access_parts.simps(2))
    next
      case (Inr g)
      show ?thesis
      proof (cases g)
        case None
        with Inr Cons.prems have "r = NONE" by (simp add: access_parts_step[OF nd] del: access_parts.simps(2))
        with None Inr nd show ?thesis by (simp add: unresolved)
      next
        case (Some w)
        with Inr Cons.prems have "access_parts H w ps = Inr r"
          by (simp add: access_parts_step[OF nd] del: access_parts.simps(2))
        from Cons.IH[OF this] Some Inr nd show ?thesis by (auto intro: attribute)
      qed
    qed
  qed
qed

lemma access_parts_append:
  "access_parts H v parts = Inr u \<Longrightarrow> u \<noteq> NONE \<Longrightarrow>
     access_parts H v (parts @ ps) = access_parts H u ps"
proof (induction parts arbitrary: v)
  case Nil
  then show ?case by simp
next
  case (Cons q qs)
  show ?case
  proof (cases "\<exists>kvs. v = VDict kvs")
    case True
    then obtain kvs where v: "v = VDict kvs" by blast
    with Cons.prems(1)
    have "access_parts H (case map_of kvs q of None \<Rightarrow> NONE | Some w \<Rightarrow> w) qs = Inr u" by simp
    from Cons.IH[OF this Cons.prems(2)] v show ?thesis by simp
  next
    case False
    then have nd: "\<forall>kvs. v \<noteq> VDict kvs" by simp
    show ?thesis
    proof (cases "py_getattr H v q")
      case (Inl e)
      with Cons.prems(1) show ?thesis
        by (simp add: access_parts_step[OF nd] del: access_parts.simps(2))
    next
      case (Inr g)
      show ?thesis
      proof (cases g)
        case None
        with Inr Cons.prems show ?thesis
          by (simp add: access_parts_step[OF nd] del: access_parts.simps(2))
      next
        case (Some w)
        with Inr Cons.prems(1) have "access_parts H w qs = Inr u"
          by (simp add: access_parts_step[OF nd] del: access_parts.simps(2))
        from Cons.IH[OF this Cons.prems(2)] Some Inr show ?thesis
          by (simp add: access_parts_step[OF nd] del: access_parts.simps(2))
      qed
    qed
  qed
qed

lemma access_parts_unresolved:
  "access_parts H v parts = Inr u \<Longrightarrow> \<forall>kvs. u \<noteq> VDict kvs \<Longrightarrow> py_getattr H u p = Inr None \<Longrightarrow>
     access_parts H v (parts @ p # rest) = Inr NONE"
proof (induction parts arbitrary: v)
  case Nil
  then show ?case by (simp add: access_parts_step del: access_parts.simps(2))
next
  case (Cons q qs)
  show ?case
  proof (cases "\<exists>kvs. v = VDict kvs")
    case True
    then obtain kvs where v: "v = VDict kvs" by blast
    with Cons.prems(1)
    have "access_parts H (case map_of kvs q of None \<Rightarrow> NONE | Some w \<Rightarrow> w) qs = Inr u" by simp
    from Cons.IH[OF this Cons.prems(2,3)] v show ?thesis by simp
  next
    case False
    then have nd: "\<forall>kvs. v \<noteq> VDict kvs" by simp
    show ?thesis
    proof (cases "py_getattr H v q")
      case (Inl e)
      with Cons.prems(1) show ?thesis
        by (simp add: access_parts_step[OF nd] del: access_parts.simps(2))
    next
      case (Inr g)
      show ?thesis
      proof (cases g)
        case None
        with Inr show ?thesis
          by (simp add: access_parts_step[OF nd] del: access_parts.simps(2))
      next
        case (Some w)
        with Inr Cons.prems(1) have "access_parts H w qs = Inr u"
          by (simp add: access_parts_step[OF nd] del: access_parts.simps(2))
        from Cons.IH[OF this Cons.prems(2,3)] Some Inr show ?thesis
          by (simp add: access_parts_step[OF nd] del: access_parts.simps(2))
      qed
    qed
  qed
qed

lemma eval_property_access_join:
  assumes "list_all (\<lambda>p. CHR ''.'' \<notin> set p) (a # parts)"
  shows "eval_property_access H (join ''.'' (a # parts)) ctx
      = access_parts H (case ctx a of Some v \<Rightarrow> v | None \<Rightarrow> eval_literal H a) parts"
  using split_char_join[OF assms] by (simp add: eval_property_access_def)

text \<open>
  C4.  Property access raises when an attribute lookup on a host object does (\<open>hasattr\<close>
  lets every exception but \<open>AttributeError\<close> through); when no lookup on a host object
  raises, it returns a value for every expression and context.  For a chain \<open>a.p1...pn\<close>
  it returns \<open>r\<close> exactly when reading \<open>p1\<close>, ..., \<open>pn\<close> from the value of \<open>a\<close> (its binding,
  else the literal) gives \<open>r\<close>: a step on a Mapping reads the key, a missing key giving
  None, a step on another value reads the attribute, and the first attribute that is not
  there ends the access with None.  In terms of the chain one part shorter: when \<open>a.p1...pn\<close>
  returns a Mapping, \<open>a.p1...pn.q\<close> returns its value at \<open>q\<close>, None for a missing key; when
  it returns a value other than a Mapping and None that has the attribute \<open>q\<close>,
  \<open>a.p1...pn.q\<close> returns the attribute; and when it returns a value other than a Mapping
  that has no attribute \<open>q\<close>, every chain \<open>a.p1...pn.q...\<close> returns None.
\<close>

theorem property_access_total:
  "((\<forall>n part. \<exists>r. obj_getattr H n part = Inr r) \<longrightarrow>
       (\<exists>r. eval_property_access H expr ctx = Inr r))
   \<and> (list_all (\<lambda>p. CHR ''.'' \<notin> set p) (a # parts) \<longrightarrow>
        (eval_property_access H (join ''.'' (a # parts)) ctx = Inr r
           \<longleftrightarrow> reads_chain H (case ctx a of Some v \<Rightarrow> v | None \<Rightarrow> eval_literal H a) parts r))
   \<and> (list_all (\<lambda>p. CHR ''.'' \<notin> set p) (a # parts @ [q])
        \<and> eval_property_access H (join ''.'' (a # parts)) ctx = Inr (VDict kvs) \<longrightarrow>
        eval_property_access H (join ''.'' (a # parts @ [q])) ctx
          = Inr (case map_of kvs q of Some w \<Rightarrow> w | None \<Rightarrow> NONE))
   \<and> (list_all (\<lambda>p. CHR ''.'' \<notin> set p) (a # parts @ [q])
        \<and> eval_property_access H (join ''.'' (a # parts)) ctx = Inr u
        \<and> u \<noteq> NONE \<and> (\<forall>kvs. u \<noteq> VDict kvs) \<and> py_getattr H u q = Inr (Some w) \<longrightarrow>
        eval_property_access H (join ''.'' (a # parts @ [q])) ctx = Inr w)
   \<and> (list_all (\<lambda>p. CHR ''.'' \<notin> set p) (a # parts @ q # rest)
        \<and> eval_property_access H (join ''.'' (a # parts)) ctx = Inr u
        \<and> (\<forall>kvs. u \<noteq> VDict kvs) \<and> py_getattr H u q = Inr None \<longrightarrow>
        eval_property_access H (join ''.'' (a # parts @ q # rest)) ctx = Inr NONE)"
proof (intro conjI impI)
  assume "\<forall>n part. \<exists>r. obj_getattr H n part = Inr r"
  then show "\<exists>r. eval_property_access H expr ctx = Inr r"
    using split_char_not_Nil[of "CHR ''.''" expr] access_parts_total[of H]
    by (auto simp: eval_property_access_def split: list.splits)
next
  assume "list_all (\<lambda>p. CHR ''.'' \<notin> set p) (a # parts)"
  then show "eval_property_access H (join ''.'' (a # parts)) ctx = Inr r
           \<longleftrightarrow> reads_chain H (case ctx a of Some v \<Rightarrow> v | None \<Rightarrow> eval_literal H a) parts r"
    using reads_chain_sound[of H _ parts r] reads_chain_complete[of H _ parts r]
    by (simp only: eval_property_access_join) blast
next
  let ?head = "case ctx a of Some v \<Rightarrow> v | None \<Rightarrow> eval_literal H a"
  assume h: "list_all (\<lambda>p. CHR ''.'' \<notin> set p) (a # parts @ [q])
        \<and> eval_property_access H (join ''.'' (a # parts)) ctx = Inr (VDict kvs)"
  then have l: "list_all (\<lambda>p. CHR ''.'' \<notin> set p) (a # parts)"
    "list_all (\<lambda>p. CHR ''.'' \<notin> set p) (a # (parts @ [q]))" by simp_all
  from h have "access_parts H ?head parts = Inr (VDict kvs)"
    by (simp only: eval_property_access_join[OF l(1)])
  from access_parts_append[OF this, of "[q]"]
  show "eval_property_access H (join ''.'' (a # parts @ [q])) ctx
          = Inr (case map_of kvs q of Some w \<Rightarrow> w | None \<Rightarrow> NONE)"
    by (simp add: eval_property_access_join[OF l(2)])
next
  let ?head = "case ctx a of Some v \<Rightarrow> v | None \<Rightarrow> eval_literal H a"
  assume h: "list_all (\<lambda>p. CHR ''.'' \<notin> set p) (a # parts @ [q])
        \<and> eval_property_access H (join ''.'' (a # parts)) ctx = Inr u
        \<and> u \<noteq> NONE \<and> (\<forall>kvs. u \<noteq> VDict kvs) \<and> py_getattr H u q = Inr (Some w)"
  then have l: "list_all (\<lambda>p. CHR ''.'' \<notin> set p) (a # parts)"
    "list_all (\<lambda>p. CHR ''.'' \<notin> set p) (a # (parts @ [q]))" by simp_all
  from h have nd: "\<forall>kvs. u \<noteq> VDict kvs" and g: "py_getattr H u q = Inr (Some w)"
    and n: "u \<noteq> NONE" by simp_all
  from h have "access_parts H ?head parts = Inr u"
    by (simp only: eval_property_access_join[OF l(1)])
  from access_parts_append[OF this n, of "[q]"] g
  show "eval_property_access H (join ''.'' (a # parts @ [q])) ctx = Inr w"
    by (simp add: eval_property_access_join[OF l(2)] access_parts_step[OF nd]
        del: access_parts.simps(2))
next
  let ?head = "case ctx a of Some v \<Rightarrow> v | None \<Rightarrow> eval_literal H a"
  assume h: "list_all (\<lambda>p. CHR ''.'' \<notin> set p) (a # parts @ q # rest)
        \<and> eval_property_access H (join ''.'' (a # parts)) ctx = Inr u
        \<and> (\<forall>kvs. u \<noteq> VDict kvs) \<and> py_getattr H u q = Inr None"
  then have l: "list_all (\<lambda>p. CHR ''.'' \<notin> set p) (a # parts)"
    "list_all (\<lambda>p. CHR ''.'' \<notin> set p) (a # (parts @ q # rest))" by simp_all
  from h have nd: "\<forall>kvs. u \<noteq> VDict kvs" and g: "py_getattr H u q = Inr None" by simp_all
  from h have "access_parts H ?head parts = Inr u"
    by (simp only: eval_property_access_join[OF l(1)])
  from access_parts_unresolved[OF this nd g, of rest]
  show "eval_property_access H (join ''.'' (a # parts @ q # rest)) ctx = Inr NONE"
    by (simp add: eval_property_access_join[OF l(2)])
qed

lemma sample_attr:
  "py_getattr exact_host (VInt 1) ''c'' = Inr None"
  "py_getattr exact_host (VSome (VInt 2)) ''value'' = Inr (Some (VInt 2))"
proof -
  have i: "isidentifier ''c''" "isidentifier ''value''" by code_simp+
  show "py_getattr exact_host (VInt 1) ''c'' = Inr None"
    "py_getattr exact_host (VSome (VInt 2)) ''value'' = Inr (Some (VInt 2))"
    by (simp_all add: py_getattr_def exact_host_def i)
qed

text \<open>C4 on the host none of whose objects raises, at \<open>x = {a: 1, m: {b: 3}, s: Some(2)}\<close>:
  a missing key, a key, and then a key of the inner Mapping, the attribute of \<open>Some(2)\<close>
  and an attribute that the integer 1 has not.\<close>

theorem property_access_total_witness:
  "(\<exists>r. eval_property_access exact_host ''x.b''
          [''x'' \<mapsto> VDict [(''a'', VInt 1), (''m'', VDict [(''b'', VInt 3)]), (''s'', VSome (VInt 2))]]
        = Inr r)
   \<and> eval_property_access exact_host ''x.b''
        [''x'' \<mapsto> VDict [(''a'', VInt 1), (''m'', VDict [(''b'', VInt 3)]), (''s'', VSome (VInt 2))]]
      = Inr NONE
   \<and> eval_property_access exact_host ''x.m.b''
        [''x'' \<mapsto> VDict [(''a'', VInt 1), (''m'', VDict [(''b'', VInt 3)]), (''s'', VSome (VInt 2))]]
      = Inr (VInt 3)
   \<and> eval_property_access exact_host ''x.m.c''
        [''x'' \<mapsto> VDict [(''a'', VInt 1), (''m'', VDict [(''b'', VInt 3)]), (''s'', VSome (VInt 2))]]
      = Inr NONE
   \<and> eval_property_access exact_host ''x.s.value''
        [''x'' \<mapsto> VDict [(''a'', VInt 1), (''m'', VDict [(''b'', VInt 3)]), (''s'', VSome (VInt 2))]]
      = Inr (VInt 2)
   \<and> eval_property_access exact_host ''x.a.c.d''
        [''x'' \<mapsto> VDict [(''a'', VInt 1), (''m'', VDict [(''b'', VInt 3)]), (''s'', VSome (VInt 2))]]
      = Inr NONE"
proof -
  let ?x = "VDict [(''a'', VInt 1), (''m'', VDict [(''b'', VInt 3)]), (''s'', VSome (VInt 2))]
              :: rat val"
  let ?ctx = "[''x'' \<mapsto> ?x]"
  have nr: "\<forall>n part. \<exists>r. obj_getattr exact_host n part = Inr r"
    by (simp add: exact_host_def)
  have t: "\<exists>r. eval_property_access exact_host ''x.b'' ?ctx = Inr r"
    using property_access_total[where H = exact_host and expr = "''x.b''" and ctx = ?ctx] nr
    by blast
  have r1: "reads_chain exact_host ?x [''b''] NONE"
    by (rule mapping_missing) (simp_all add: chain_end)
  have r2: "reads_chain exact_host ?x [''m''] (VDict [(''b'', VInt 3)])"
    by (rule mapping_field[of _ _ "VDict [(''b'', VInt 3)]"]) (simp_all add: chain_end)
  have r3: "reads_chain exact_host ?x [''s''] (VSome (VInt 2))"
    by (rule mapping_field[of _ _ "VSome (VInt 2)"]) (simp_all add: chain_end)
  have r4: "reads_chain exact_host ?x [''a''] (VInt 1)"
    by (rule mapping_field[of _ _ "VInt 1"]) (simp_all add: chain_end)
  have e1: "eval_property_access exact_host ''x.b'' ?ctx = Inr NONE"
    using property_access_total[where H = exact_host and ctx = ?ctx and a = "''x''"
        and parts = "[''b'']" and r = NONE] r1 by simp
  have e2: "eval_property_access exact_host ''x.m'' ?ctx = Inr (VDict [(''b'', VInt 3)])"
    using property_access_total[where H = exact_host and ctx = ?ctx and a = "''x''"
        and parts = "[''m'']" and r = "VDict [(''b'', VInt 3)]"] r2 by simp
  have e3: "eval_property_access exact_host ''x.s'' ?ctx = Inr (VSome (VInt 2))"
    using property_access_total[where H = exact_host and ctx = ?ctx and a = "''x''"
        and parts = "[''s'']" and r = "VSome (VInt 2)"] r3 by simp
  have e4: "eval_property_access exact_host ''x.a'' ?ctx = Inr (VInt 1)"
    using property_access_total[where H = exact_host and ctx = ?ctx and a = "''x''"
        and parts = "[''a'']" and r = "VInt 1"] r4 by simp
  have f1: "eval_property_access exact_host ''x.m.b'' ?ctx = Inr (VInt 3)"
    using property_access_total[where H = exact_host and ctx = ?ctx and a = "''x''"
        and parts = "[''m'']" and q = "''b''" and kvs = "[(''b'', VInt 3)]"] e2 by simp
  have f2: "eval_property_access exact_host ''x.m.c'' ?ctx = Inr NONE"
    using property_access_total[where H = exact_host and ctx = ?ctx and a = "''x''"
        and parts = "[''m'']" and q = "''c''" and kvs = "[(''b'', VInt 3)]"] e2 by simp
  have f3: "eval_property_access exact_host ''x.s.value'' ?ctx = Inr (VInt 2)"
    using property_access_total[where H = exact_host and ctx = ?ctx and a = "''x''"
        and parts = "[''s'']" and q = "''value''" and u = "VSome (VInt 2)" and w = "VInt 2"]
      e3 sample_attr(2) by simp
  have f4: "eval_property_access exact_host ''x.a.c.d'' ?ctx = Inr NONE"
    using property_access_total[where H = exact_host and ctx = ?ctx and a = "''x''"
        and parts = "[''a'']" and q = "''c''" and rest = "[''d'']" and u = "VInt 1"]
      e4 sample_attr(1) by simp
  from t e1 f1 f2 f3 f4 show ?thesis by simp
qed

lemma split_x_a: "split_char CHR ''.'' ''x.a'' = [''x'', ''a'']"
  by code_simp

text \<open>C4, counterexample: \<open>x.a\<close> raises when \<open>x\<close> is such an object.\<close>

theorem property_access_raises:
  "eval_property_access raising_host ''x.a'' [''x'' \<mapsto> VObj 0] = Inl (HostError 0)"
  by (simp add: eval_property_access_def split_x_a py_getattr_def raising_host_def)

subsection \<open>Arithmetic\<close>

lemma forms_sub:
  "lambda_of ''x => x - 1 - 1'' = Some ([''x''], ''x - 1 - 1'')"
  "form_of ''x - 1 - 1'' = FArith ''-'' Sub ''x - 1'' ''1''"
  "form_of ''x - 1'' = FArith ''-'' Sub ''x'' ''1''"
  "form_of ''x'' = FAtom ''x''"
  "form_of ''1'' = FAtom ''1''"
  "lit_of ''1'' = LInt 1"
  by code_simp+

lemma forms_neg:
  "lambda_of ''x => x + -1.5'' = Some ([''x''], ''x + -1.5'')"
  "form_of ''x + -1.5'' = FArith ''+'' Add ''x'' ''-1.5''"
  "form_of ''-1.5'' = FProperty ''-1.5''"
  "split_char CHR ''.'' ''-1.5'' = [''-1'', ''5'']"
  "lit_of ''-1'' = LInt (- 1)"
  "isidentifier ''5'' = False"
  by code_simp+

text \<open>
  C1.  The chain \<open>x - 1 - 1\<close> is split at the rightmost \<open>" - "\<close> at depth 0 (index 5) and
  \<open>"x => x - 1 - 1"\<close> maps 10 to 8.  But \<open>"x => x + a"\<close> does not compute \<open>a + b\<close> for every
  number \<open>a\<close>: with the negative decimal \<open>a = -1.5\<close> the right operand \<open>"-1.5"\<close> holds a point
  and does not start with a digit, so it is read as the property access \<open>(-1).5\<close>, which
  yields \<open>NONE\<close>, and adding \<open>NONE\<close> to 2 raises \<open>TypeError\<close>.
\<close>

theorem arithmetic_left_to_right_but_negative_decimal:
  "find_at_depth_0 ''x - 1 - 1'' '' - '' True = 5
   \<and> parse_expr H ''x => x - 1 - 1'' (VInt 10) = Inr (VInt 8)
   \<and> parse_expr H ''x => x + -1.5'' (VInt 2) = Inl TypeError"
proof -
  have "find_at_depth_0 ''x - 1 - 1'' '' - '' True = 5" by code_simp
  moreover have "parse_expr H ''x => x - 1 - 1'' (VInt 10) = Inr (VInt 8)"
    by (simp add: parse_expr_lambda[OF forms_sub(1)] eval_expr_form forms_sub eval_literal_lit
        build_ctx_def py_arith_def int_arith_def)
  moreover have "parse_expr H ''x => x + -1.5'' (VInt 2) = Inl TypeError"
    by (simp add: parse_expr_lambda[OF forms_neg(1)] eval_expr_form forms_neg forms_sub(4)
        eval_literal_lit build_ctx_def py_arith_def eval_property_access_def py_getattr_def)
  ultimately show ?thesis by simp
qed

subsection \<open>Ternary\<close>

lemma forms_tern:
  "lambda_of ''x => x[true ? 0 : 1] ? 10 : 20'' = Some ([''x''], ''x[true ? 0 : 1] ? 10 : 20'')"
  "form_of ''x[true ? 0 : 1] ? 10 : 20'' = FTernary ''x[true ? 0 : 1] ? 10 : 20''"
  "ternary_parts ''x[true ? 0 : 1] ? 10 : 20'' = Some (''x[true '', '' 0 : 1] ? 10 '', '' 20'')"
  "form_of ''x[true '' = FAtom ''x[true''"
  "form_of '' 0 : 1] ? 10 '' = FAtom ''0 : 1] ? 10''"
  "form_of '' 20'' = FAtom ''20''"
  "lit_of ''x[true'' = LStr ''x[true''"
  "lit_of ''0 : 1] ? 10'' = LStr ''0 : 1] ? 10''"
  "lit_of ''20'' = LInt 20"
  by code_simp+

lemma forms_tern_cond:
  "take 16 ''x[true ? 0 : 1] ? 10 : 20'' = ''x[true ? 0 : 1] ''"
  "form_of ''x[true ? 0 : 1] '' = FIndex ''x[true ? 0 : 1]''"
  "index_parts ''x[true ? 0 : 1]'' = Some (''x'', ''true ? 0 : 1'')"
  "form_of ''x'' = FAtom ''x''"
  "form_of ''true ? 0 : 1'' = FTernary ''true ? 0 : 1''"
  "ternary_parts ''true ? 0 : 1'' = Some (''true '', '' 0 '', '' 1'')"
  "form_of ''true '' = FAtom ''true''"
  "form_of '' 0 '' = FAtom ''0''"
  "form_of '' 1'' = FAtom ''1''"
  "lit_of ''true'' = LBool True"
  "lit_of ''0'' = LInt 0"
  "lit_of ''1'' = LInt 1"
  by code_simp+

text \<open>
  C2.  In \<open>x[true ? 0 : 1] ? 10 : 20\<close> the \<open>?\<close> at depth 0 is at index 16, and the text before
  it evaluates to 5 when \<open>x\<close> is \<open>[5, 0]\<close>.  \<open>eval_expr\<close> finds that \<open>?\<close> and calls
  \<open>eval_ternary\<close>, which splits at \<open>expr.index("?")\<close>, the \<open>?\<close> inside the brackets at index 7:
  the condition becomes the text \<open>"x[true"\<close> and the result is the text \<open>"0 : 1] ? 10"\<close>, neither
  10 nor 20.
\<close>

theorem ternary_splits_at_first_question_mark:
  "q_pos_loop ''x[true ? 0 : 1] ? 10 : 20'' 0 0 (- 1) = 16
   \<and> find_sub ''?'' ''x[true ? 0 : 1] ? 10 : 20'' = Some 7
   \<and> eval_expr H (take 16 ''x[true ? 0 : 1] ? 10 : 20'') [''x'' \<mapsto> VList [VInt 5, VInt 0]]
       = Inr (VInt 5)
   \<and> parse_expr H ''x => x[true ? 0 : 1] ? 10 : 20'' (VList [VInt 5, VInt 0])
       = Inr (VStr ''0 : 1] ? 10'')"
proof -
  have "q_pos_loop ''x[true ? 0 : 1] ? 10 : 20'' 0 0 (- 1) = 16"
    "find_sub ''?'' ''x[true ? 0 : 1] ? 10 : 20'' = Some 7"
    by code_simp+
  moreover have "eval_expr H (take 16 ''x[true ? 0 : 1] ? 10 : 20'')
      [''x'' \<mapsto> VList [VInt 5, VInt 0]] = Inr (VInt 5)"
    unfolding forms_tern_cond(1)
    by (simp add: eval_expr_form forms_tern_cond eval_literal_lit
        eval_index_parts[OF forms_tern_cond(3)] eval_ternary_parts[OF forms_tern_cond(6)]
        index_sequence_def py_int_def py_getitem_def)
  moreover have "parse_expr H ''x => x[true ? 0 : 1] ? 10 : 20'' (VList [VInt 5, VInt 0])
       = Inr (VStr ''0 : 1] ? 10'')"
    by (simp add: parse_expr_lambda[OF forms_tern(1)] eval_expr_form forms_tern eval_literal_lit
        build_ctx_def eval_ternary_parts[OF forms_tern(3)])
  ultimately show ?thesis by simp
qed

subsection \<open>Index access\<close>

lemma forms_idx:
  "lambda_of ''a => a[-1]'' = Some ([''a''], ''a[-1]'')"
  "form_of ''a[-1]'' = FIndex ''a[-1]''"
  "index_parts ''a[-1]'' = Some (''a'', ''-1'')"
  "form_of ''a'' = FAtom ''a''"
  "form_of ''-1'' = FAtom ''-1''"
  "lit_of ''-1'' = LInt (- 1)"
  "lambda_of ''a => a[-4]'' = Some ([''a''], ''a[-4]'')"
  "form_of ''a[-4]'' = FIndex ''a[-4]''"
  "index_parts ''a[-4]'' = Some (''a'', ''-4'')"
  "form_of ''-4'' = FAtom ''-4''"
  "lit_of ''-4'' = LInt (- 4)"
  "lambda_of ''a => a[3]'' = Some ([''a''], ''a[3]'')"
  "form_of ''a[3]'' = FIndex ''a[3]''"
  "index_parts ''a[3]'' = Some (''a'', ''3'')"
  "form_of ''3'' = FAtom ''3''"
  "lit_of ''3'' = LInt 3"
  by code_simp+

text \<open>
  C3.  \<open>a[i]\<close> guards the upper end of the range only (\<open>int(index) < len(base)\<close>): the
  index 3 on a list of three elements yields \<open>NONE\<close> and \<open>-1\<close> counts from the end, but an
  index below \<open>-len\<close> raises \<open>IndexError\<close>, as \<open>-1\<close> on the empty list and \<open>-4\<close> on a list of
  three elements do.
\<close>

theorem index_below_range_raises:
  "parse_expr H ''a => a[-1]'' (VList []) = Inl IndexError
   \<and> parse_expr H ''a => a[-4]'' (VList [VInt 1, VInt 2, VInt 3]) = Inl IndexError
   \<and> parse_expr H ''a => a[-1]'' (VList [VInt 1, VInt 2, VInt 3]) = Inr (VInt 3)
   \<and> parse_expr H ''a => a[3]'' (VList [VInt 1, VInt 2, VInt 3]) = Inr NONE"
proof -
  have "parse_expr H ''a => a[-1]'' (VList xs) = py_getitem xs (- 1)" for xs
    by (simp add: parse_expr_lambda[OF forms_idx(1)] eval_expr_form forms_idx eval_literal_lit
        build_ctx_def eval_index_parts[OF forms_idx(3)] index_sequence_def py_int_def)
  moreover have "parse_expr H ''a => a[-4]'' (VList xs) = py_getitem xs (- 4)" for xs
    by (simp add: parse_expr_lambda[OF forms_idx(7)] eval_expr_form forms_idx eval_literal_lit
        build_ctx_def eval_index_parts[OF forms_idx(9)] index_sequence_def py_int_def)
  moreover have "parse_expr H ''a => a[3]'' (VList [VInt 1, VInt 2, VInt 3]) = Inr NONE"
    by (simp add: parse_expr_lambda[OF forms_idx(12)] eval_expr_form forms_idx eval_literal_lit
        build_ctx_def eval_index_parts[OF forms_idx(14)] index_sequence_def py_int_def)
  ultimately show ?thesis by (simp add: py_getitem_def)
qed

subsection \<open>filter\<close>

text \<open>
  Truthiness in the words of the specification: \<open>None\<close>, \<open>false\<close>, \<open>0\<close>, the empty text and the
  empty sequence are falsy, everything else is truthy.
\<close>

fun spec_truthy :: "'f host \<Rightarrow> 'f val \<Rightarrow> bool" where
  "spec_truthy H PyNone = False"
| "spec_truthy H NONE = False"
| "spec_truthy H (VBool b) = b"
| "spec_truthy H (VInt i) = (i \<noteq> 0)"
| "spec_truthy H (VFloat x) = float_truthy H x"
| "spec_truthy H (VStr s) = (s \<noteq> [])"
| "spec_truthy H (VList xs) = (xs \<noteq> [])"
| "spec_truthy H (VTuple xs) = (xs \<noteq> [])"
| "spec_truthy H v = True"

lemma filter_items_filter:
  "(\<And>i. i \<in> set items \<Longrightarrow> pred i = Inr (p i)) \<Longrightarrow>
     filter_items H pred items = Inr (filter (\<lambda>i. truthy H (p i)) items)"
  by (induction items) auto

lemma forms_even:
  "lambda_of ''x => x % 2 == 0'' = Some ([''x''], ''x % 2 == 0'')"
  "form_of ''x % 2 == 0'' = FCompare Eq ''x % 2 '' '' 0''"
  "form_of ''x % 2 '' = FArith ''%'' Mod ''x'' ''2''"
  "form_of ''x'' = FAtom ''x''"
  "form_of ''2'' = FAtom ''2''"
  "form_of '' 0'' = FAtom ''0''"
  "lit_of ''2'' = LInt 2"
  "lit_of ''0'' = LInt 0"
  "lambda_of ''x => x'' = Some ([''x''], ''x'')"
  by code_simp+

lemma is_even_int: "parse_expr H ''x => x % 2 == 0'' (VInt k) = Inr (VBool (k mod 2 = 0))"
  by (simp add: parse_expr_lambda[OF forms_even(1)] eval_expr_form forms_even eval_literal_lit
      build_ctx_def py_arith_def int_arith_def py_compare_def int_compare_def)

lemma identity_lambda: "parse_expr H ''x => x'' v = Inr v"
  by (simp add: parse_expr_lambda[OF forms_even(9)] eval_expr_form forms_even build_ctx_def)

text \<open>
  C5, as the code has it.  On a \<open>list\<close> whose elements the predicate evaluates, the block
  built by \<open>filter\<close> returns, in order, exactly the elements on which the value of the
  predicate is truthy; \<open>"x => x % 2 == 0"\<close> on \<open>[1,2,3,4,5,6]\<close> gives \<open>[2,4,6]\<close>.  On any other
  input \<open>v\<close>, a \<open>tuple\<close> included, it returns \<open>Some(v)\<close> when the value of the predicate on
  \<open>v\<close> is truthy and \<open>NONE\<close> when it is not.  Truthiness is Python's: that of the
  specification, except that an empty Mapping is falsy too and that a host object decides
  for itself.
\<close>

theorem filter_by_truthiness:
  "((\<forall>i \<in> set items. parse_expr H predicate i = Inr (p i)) \<longrightarrow>
      fn (filter_block H predicate) (VList items)
        = Inr (VList (filter (\<lambda>i. truthy H (p i)) items)))
   \<and> ((\<forall>xs. v \<noteq> VList xs) \<and> parse_expr H predicate v = Inr q \<longrightarrow>
      fn (filter_block H predicate) v = Inr (if truthy H q then VSome v else NONE))
   \<and> fn (filter_block H ''x => x % 2 == 0'')
        (VList [VInt 1, VInt 2, VInt 3, VInt 4, VInt 5, VInt 6])
        = Inr (VList [VInt 2, VInt 4, VInt 6])
   \<and> (truthy H w \<longleftrightarrow>
        (case w of
           VDict kvs \<Rightarrow> kvs \<noteq> []
         | VObj n \<Rightarrow> obj_truthy H n
         | _ \<Rightarrow> spec_truthy H w))"
proof -
  have lst: "fn (filter_block H predicate) (VList items)
        = Inr (VList (filter (\<lambda>i. truthy H (p i)) items))"
    if "\<forall>i \<in> set items. parse_expr H predicate i = Inr (p i)"
    using filter_items_filter[of items "parse_expr H predicate" p H] that
    by (simp add: filter_block_def filter_fn_def)
  have other: "fn (filter_block H predicate) v = Inr (if truthy H q then VSome v else NONE)"
    if "\<forall>xs. v \<noteq> VList xs" "parse_expr H predicate v = Inr q"
    using that by (cases v) (simp_all add: filter_block_def filter_fn_def)
  have ex: "fn (filter_block H ''x => x % 2 == 0'')
        (VList [VInt 1, VInt 2, VInt 3, VInt 4, VInt 5, VInt 6])
        = Inr (VList [VInt 2, VInt 4, VInt 6])"
    by (simp add: filter_block_def filter_fn_def is_even_int)
  have tr: "truthy H w \<longleftrightarrow>
        (case w of
           VDict kvs \<Rightarrow> kvs \<noteq> []
         | VObj n \<Rightarrow> obj_truthy H n
         | _ \<Rightarrow> spec_truthy H w)"
    by (cases w) simp_all
  show ?thesis using lst other ex tr by blast
qed

text \<open>C5 at \<open>[1,2,3]\<close>, at the numbers 4 and 3, and at the one-element tuple \<open>(0,)\<close>.\<close>

theorem filter_by_truthiness_witness:
  "fn (filter_block exact_host ''x => x % 2 == 0'') (VList [VInt 1, VInt 2, VInt 3])
     = Inr (VList [VInt 2])
   \<and> fn (filter_block exact_host ''x => x % 2 == 0'') (VInt 4) = Inr (VSome (VInt 4))
   \<and> fn (filter_block exact_host ''x => x % 2 == 0'') (VInt 3) = Inr NONE
   \<and> fn (filter_block exact_host ''x => x'') (VTuple [VInt 0]) = Inr (VSome (VTuple [VInt 0]))"
  using filter_by_truthiness[where H = exact_host and predicate = "''x => x % 2 == 0''"
      and items = "[VInt 1, VInt 2, VInt 3]"
      and p = "\<lambda>i. case i of VInt k \<Rightarrow> VBool (k mod 2 = 0) | _ \<Rightarrow> NONE"
      and v = "VInt 4" and q = "VBool True"]
    filter_by_truthiness[where H = exact_host and predicate = "''x => x % 2 == 0''"
      and v = "VInt 3" and q = "VBool False"]
    filter_by_truthiness[where H = exact_host and predicate = "''x => x''"
      and v = "VTuple [VInt 0]" and q = "VTuple [VInt 0]"]
  by (simp add: is_even_int identity_lambda)

text \<open>
  C5 as stated fails at the empty Mapping: it is none of the falsy values that the claim
  lists, the predicate \<open>"x => x"\<close> returns it, and \<open>filter\<close> answers \<open>NONE\<close>, not \<open>Some({})\<close>.
  It fails at a tuple as well, which is wrapped whole and not filtered element by element.
\<close>

theorem filter_empty_mapping_falsy:
  "parse_expr exact_host ''x => x'' (VDict []) = Inr (VDict [])
   \<and> spec_truthy exact_host (VDict [])
   \<and> fn (filter_block exact_host ''x => x'') (VDict []) = Inr NONE
   \<and> fn (filter_block exact_host ''x => x'') (VTuple [VInt 0, VInt 1])
       = Inr (VSome (VTuple [VInt 0, VInt 1]))"
  by (simp add: identity_lambda filter_block_def filter_fn_def)

subsection \<open>repeat\<close>

text \<open>
  What the Collatz run needs of the host's floats: on integers from 0 to \<open>2^53\<close>, written
  as floats by \<open>fl\<close>, an exact quotient by a positive divisor, the remainder by a positive
  divisor, a product and a sum that stay in that range, and every comparison with an
  integer are computed exactly.  This holds of IEEE-754 binary64, the \<open>float\<close> of CPython;
  no operand is negative, so that no result is a negative zero.
\<close>

definition exact_at :: "'f host \<Rightarrow> (int \<Rightarrow> 'f) \<Rightarrow> int \<Rightarrow> int \<Rightarrow> bool" where
  "exact_at H fl a b =
     ((0 < b \<and> a mod b = 0 \<longrightarrow>
         host_arith H TrueDiv (VInt a) (VInt b) = Inr (VFloat (fl (a div b)))
         \<and> host_arith H TrueDiv (VFloat (fl a)) (VInt b) = Inr (VFloat (fl (a div b))))
      \<and> (0 < b \<longrightarrow> host_arith H Mod (VFloat (fl a)) (VInt b) = Inr (VFloat (fl (a mod b))))
      \<and> (a * b \<le> 2 ^ 53 \<longrightarrow>
            host_arith H Mul (VFloat (fl a)) (VInt b) = Inr (VFloat (fl (a * b))))
      \<and> (a + b \<le> 2 ^ 53 \<longrightarrow>
            host_arith H Add (VFloat (fl a)) (VInt b) = Inr (VFloat (fl (a + b))))
      \<and> (\<forall>op. host_compare H op (VFloat (fl a)) (VInt b) = Inr (VBool (int_compare op a b))))"

definition exact_on_integers :: "'f host \<Rightarrow> (int \<Rightarrow> 'f) \<Rightarrow> bool" where
  "exact_on_integers H fl =
     (\<forall>a b. 0 \<le> a \<and> a \<le> 2 ^ 53 \<and> 0 \<le> b \<and> b \<le> 2 ^ 53 \<longrightarrow> exact_at H fl a b)"

lemma rat_mod_of_int:
  "b \<noteq> 0 \<Longrightarrow> (of_int a :: rat) - of_int b * of_int \<lfloor>(of_int a :: rat) / of_int b\<rfloor> = of_int (a mod b)"
proof -
  have "\<lfloor>(of_int a :: rat) / of_int b\<rfloor> = a div b" by (simp add: floor_divide_of_int_eq)
  moreover have "a mod b = a - b * (a div b)" by (simp add: minus_mult_div_eq_mod)
  ultimately show ?thesis by simp
qed

lemma rat_div_of_int:
  assumes "b \<noteq> 0" "a mod b = 0"
  shows "(of_int a :: rat) / of_int b = of_int (a div b)"
proof -
  from assms(2) have "b dvd a" by (simp add: dvd_eq_mod_eq_0)
  then have "b * (a div b) = a" by (rule dvd_mult_div_cancel)
  then have "(of_int a :: rat) = of_int b * of_int (a div b)"
    by (metis of_int_mult)
  with assms(1) show ?thesis by simp
qed

lemma exact_host_at: "exact_at exact_host of_int a b"
  unfolding exact_at_def
proof (intro allI impI conjI)
  assume "0 < b \<and> a mod b = 0"
  then show "host_arith exact_host TrueDiv (VInt a) (VInt b) = Inr (VFloat (of_int (a div b)))"
    "host_arith exact_host TrueDiv (VFloat (of_int a)) (VInt b) = Inr (VFloat (of_int (a div b)))"
    by (simp_all add: exact_host_def exact_arith_def as_rat_def rat_div_of_int)
next
  assume "0 < b"
  then show "host_arith exact_host Mod (VFloat (of_int a)) (VInt b) = Inr (VFloat (of_int (a mod b)))"
    by (simp add: exact_host_def exact_arith_def as_rat_def rat_mod_of_int)
next
  show "host_arith exact_host Mul (VFloat (of_int a)) (VInt b) = Inr (VFloat (of_int (a * b)))"
    "host_arith exact_host Add (VFloat (of_int a)) (VInt b) = Inr (VFloat (of_int (a + b)))"
    by (simp_all add: exact_host_def exact_arith_def as_rat_def)
next
  fix op
  show "host_compare exact_host op (VFloat (of_int a)) (VInt b) = Inr (VBool (int_compare op a b))"
    by (cases op) (simp_all add: exact_host_def exact_compare_def as_rat_def int_compare_def)
qed

lemma exact_host_exact: "exact_on_integers exact_host of_int"
  by (simp add: exact_on_integers_def exact_host_at)

text \<open>A run of the loop that returns, as the values it passes through.\<close>

lemma repeat_loop_returns:
  "repeat_loop H n cond body x = Inr y \<Longrightarrow>
     \<exists>k \<le> n. \<exists>t. t 0 = x \<and> t k = y
       \<and> (\<forall>i < k. (\<exists>c. cond (t i) = Inr c \<and> truthy H c) \<and> body (t i) = Inr (t (Suc i)))
       \<and> (k < n \<longrightarrow> (\<exists>c. cond (t k) = Inr c \<and> \<not> truthy H c))"
proof (induction n arbitrary: x)
  case 0
  then have "y = x" by simp
  then show ?case by (intro exI[of _ 0] conjI exI[of _ "\<lambda>_. x"]) simp_all
next
  case (Suc n)
  from Suc.prems obtain c where c: "cond x = Inr c" by (cases "cond x") simp_all
  show ?case
  proof (cases "truthy H c")
    case False
    with Suc.prems c have "y = x" by simp
    with c False show ?thesis by (intro exI[of _ 0] conjI exI[of _ "\<lambda>_. x"]) simp_all
  next
    case True
    with Suc.prems c obtain x' where x': "body x = Inr x'" by (cases "body x") simp_all
    with Suc.prems c True have "repeat_loop H n cond body x' = Inr y" by simp
    from Suc.IH[OF this] obtain k t where k: "k \<le> n" "t 0 = x'" "t k = y"
      "\<forall>i < k. (\<exists>c. cond (t i) = Inr c \<and> truthy H c) \<and> body (t i) = Inr (t (Suc i))"
      "k < n \<longrightarrow> (\<exists>c. cond (t k) = Inr c \<and> \<not> truthy H c)" by blast
    define u where "u = (\<lambda>i. case i of 0 \<Rightarrow> x | Suc j \<Rightarrow> t j)"
    have u: "u 0 = x" "\<And>j. u (Suc j) = t j" by (simp_all add: u_def)
    have steps: "\<forall>i < Suc k. (\<exists>c. cond (u i) = Inr c \<and> truthy H c) \<and> body (u i) = Inr (u (Suc i))"
    proof (intro allI impI)
      fix i assume i: "i < Suc k"
      show "(\<exists>c. cond (u i) = Inr c \<and> truthy H c) \<and> body (u i) = Inr (u (Suc i))"
      proof (cases i)
        case 0
        with c True x' k(2) show ?thesis by (simp add: u)
      next
        case (Suc j)
        with i have "j < k" by simp
        with k(4) Suc show ?thesis by (simp add: u)
      qed
    qed
    have "Suc k \<le> Suc n" "u 0 = x" "u (Suc k) = y"
      "Suc k < Suc n \<longrightarrow> (\<exists>c. cond (u (Suc k)) = Inr c \<and> \<not> truthy H c)"
      using k(1,3,5) by (simp_all add: u)
    with steps show ?thesis by blast
  qed
qed

lemma repeat_loop_follows:
  "k \<le> n \<Longrightarrow> t 0 = x \<Longrightarrow>
   \<forall>i < k. (\<exists>c. cond (t i) = Inr c \<and> truthy H c) \<and> body (t i) = Inr (t (Suc i)) \<Longrightarrow>
   k < n \<longrightarrow> (\<exists>c. cond (t k) = Inr c \<and> \<not> truthy H c) \<Longrightarrow>
   repeat_loop H n cond body x = Inr (t k)"
proof (induction n arbitrary: x k t)
  case 0
  then show ?case by simp
next
  case (Suc n)
  show ?case
  proof (cases k)
    case 0
    with Suc.prems show ?thesis by auto
  next
    case (Suc j)
    with Suc.prems(3) have first: "\<exists>c. cond (t 0) = Inr c \<and> truthy H c" "body (t 0) = Inr (t (Suc 0))"
      by auto
    have "repeat_loop H n cond body (t (Suc 0)) = Inr ((t \<circ> Suc) j)"
    proof (rule Suc.IH)
      show "j \<le> n" using Suc.prems(1) Suc by simp
      show "(t \<circ> Suc) 0 = t (Suc 0)" by simp
      show "\<forall>i < j. (\<exists>c. cond ((t \<circ> Suc) i) = Inr c \<and> truthy H c)
                \<and> body ((t \<circ> Suc) i) = Inr ((t \<circ> Suc) (Suc i))"
        using Suc.prems(3) Suc by simp
      show "j < n \<longrightarrow> (\<exists>c. cond ((t \<circ> Suc) j) = Inr c \<and> \<not> truthy H c)"
        using Suc.prems(4) Suc by simp
    qed
    with first Suc.prems(2) Suc show ?thesis by auto
  qed
qed

lemma repeat_loop_trace:
  "repeat_loop H n cond body x = Inr y \<longleftrightarrow>
     (\<exists>k \<le> n. \<exists>t. t 0 = x \<and> t k = y
       \<and> (\<forall>i < k. (\<exists>c. cond (t i) = Inr c \<and> truthy H c) \<and> body (t i) = Inr (t (Suc i)))
       \<and> (k < n \<longrightarrow> (\<exists>c. cond (t k) = Inr c \<and> \<not> truthy H c)))"
proof
  assume "repeat_loop H n cond body x = Inr y"
  then show "\<exists>k \<le> n. \<exists>t. t 0 = x \<and> t k = y
       \<and> (\<forall>i < k. (\<exists>c. cond (t i) = Inr c \<and> truthy H c) \<and> body (t i) = Inr (t (Suc i)))
       \<and> (k < n \<longrightarrow> (\<exists>c. cond (t k) = Inr c \<and> \<not> truthy H c))"
    by (rule repeat_loop_returns)
next
  assume "\<exists>k \<le> n. \<exists>t. t 0 = x \<and> t k = y
       \<and> (\<forall>i < k. (\<exists>c. cond (t i) = Inr c \<and> truthy H c) \<and> body (t i) = Inr (t (Suc i)))
       \<and> (k < n \<longrightarrow> (\<exists>c. cond (t k) = Inr c \<and> \<not> truthy H c))"
  then obtain k t where "k \<le> n" "t 0 = x" "t k = y"
    "\<forall>i < k. (\<exists>c. cond (t i) = Inr c \<and> truthy H c) \<and> body (t i) = Inr (t (Suc i))"
    "k < n \<longrightarrow> (\<exists>c. cond (t k) = Inr c \<and> \<not> truthy H c)" by blast
  with repeat_loop_follows[of k n t x cond H body] show "repeat_loop H n cond body x = Inr y"
    by simp
qed

text \<open>The Collatz step on integers, \<open>n\<close> steps of it while the value exceeds 1, and the
  bound under which the float run stays exact.\<close>

fun collatz_step :: "int \<Rightarrow> int" where
  "collatz_step k = (if k mod 2 = 0 then k div 2 else k * 3 + 1)"

fun collatz_run :: "nat \<Rightarrow> int \<Rightarrow> int" where
  "collatz_run 0 k = k"
| "collatz_run (Suc n) k = (if k > 1 then collatz_run n (collatz_step k) else k)"

fun collatz_small :: "nat \<Rightarrow> int \<Rightarrow> bool" where
  "collatz_small 0 k = (0 \<le> k \<and> k \<le> 2 ^ 50)"
| "collatz_small (Suc n) k =
     (0 \<le> k \<and> k \<le> 2 ^ 50 \<and> (k \<le> 1 \<or> collatz_small n (collatz_step k)))"

definition collatz_body :: "'f host \<Rightarrow> 'f Block" where
  "collatz_body H = branch H ''n => n % 2 == 0'' (Expr ''n => n / 2'') (Expr ''n => n * 3 + 1'')"

lemma forms_collatz:
  "lambda_of ''n => n > 1'' = Some ([''n''], ''n > 1'')"
  "lambda_of ''n => n % 2 == 0'' = Some ([''n''], ''n % 2 == 0'')"
  "lambda_of ''n => n / 2'' = Some ([''n''], ''n / 2'')"
  "lambda_of ''n => n * 3 + 1'' = Some ([''n''], ''n * 3 + 1'')"
  "form_of ''n > 1'' = FCompare Gt ''n '' '' 1''"
  "form_of ''n '' = FAtom ''n''"
  "form_of ''n'' = FAtom ''n''"
  "form_of '' 1'' = FAtom ''1''"
  "form_of ''1'' = FAtom ''1''"
  "form_of ''2'' = FAtom ''2''"
  "form_of ''3'' = FAtom ''3''"
  "form_of '' 0'' = FAtom ''0''"
  "form_of ''n % 2 == 0'' = FCompare Eq ''n % 2 '' '' 0''"
  "form_of ''n % 2 '' = FArith ''%'' Mod ''n'' ''2''"
  "form_of ''n / 2'' = FArith ''/'' TrueDiv ''n'' ''2''"
  "form_of ''n * 3 + 1'' = FArith ''+'' Add ''n * 3'' ''1''"
  "form_of ''n * 3'' = FArith ''*'' Mul ''n'' ''3''"
  "lit_of ''0'' = LInt 0"
  "lit_of ''1'' = LInt 1"
  "lit_of ''2'' = LInt 2"
  "lit_of ''3'' = LInt 3"
  by code_simp+

lemma exactD:
  assumes "exact_on_integers H fl" "0 \<le> a" "a \<le> 2 ^ 53" "0 \<le> b" "b \<le> 2 ^ 53"
  shows "0 < b \<Longrightarrow> a mod b = 0 \<Longrightarrow>
           host_arith H TrueDiv (VInt a) (VInt b) = Inr (VFloat (fl (a div b)))"
    and "0 < b \<Longrightarrow> a mod b = 0 \<Longrightarrow>
           host_arith H TrueDiv (VFloat (fl a)) (VInt b) = Inr (VFloat (fl (a div b)))"
    and "0 < b \<Longrightarrow> host_arith H Mod (VFloat (fl a)) (VInt b) = Inr (VFloat (fl (a mod b)))"
    and "a * b \<le> 2 ^ 53 \<Longrightarrow>
           host_arith H Mul (VFloat (fl a)) (VInt b) = Inr (VFloat (fl (a * b)))"
    and "a + b \<le> 2 ^ 53 \<Longrightarrow>
           host_arith H Add (VFloat (fl a)) (VInt b) = Inr (VFloat (fl (a + b)))"
    and "host_compare H op (VFloat (fl a)) (VInt b) = Inr (VBool (int_compare op a b))"
proof -
  from assms have e: "exact_at H fl a b" unfolding exact_on_integers_def by blast
  show "0 < b \<Longrightarrow> a mod b = 0 \<Longrightarrow>
           host_arith H TrueDiv (VInt a) (VInt b) = Inr (VFloat (fl (a div b)))"
    using e unfolding exact_at_def by (elim conjE) simp
  show "0 < b \<Longrightarrow> a mod b = 0 \<Longrightarrow>
           host_arith H TrueDiv (VFloat (fl a)) (VInt b) = Inr (VFloat (fl (a div b)))"
    using e unfolding exact_at_def by (elim conjE) simp
  show "0 < b \<Longrightarrow> host_arith H Mod (VFloat (fl a)) (VInt b) = Inr (VFloat (fl (a mod b)))"
    using e unfolding exact_at_def by (elim conjE) simp
  show "a * b \<le> 2 ^ 53 \<Longrightarrow>
           host_arith H Mul (VFloat (fl a)) (VInt b) = Inr (VFloat (fl (a * b)))"
    using e unfolding exact_at_def by (elim conjE) simp
  show "a + b \<le> 2 ^ 53 \<Longrightarrow>
           host_arith H Add (VFloat (fl a)) (VInt b) = Inr (VFloat (fl (a + b)))"
    using e unfolding exact_at_def by (elim conjE) simp
  show "host_compare H op (VFloat (fl a)) (VInt b) = Inr (VBool (int_compare op a b))"
    using e unfolding exact_at_def by (elim conjE) simp
qed

lemma cond_int: "parse_expr H ''n => n > 1'' (VInt k) = Inr (VBool (k > 1))"
  by (simp add: parse_expr_lambda[OF forms_collatz(1)] eval_expr_form forms_collatz
      eval_literal_lit build_ctx_def py_compare_def int_compare_def)

lemma cond_float:
  assumes "exact_on_integers H fl" "0 \<le> k" "k \<le> 2 ^ 53"
  shows "parse_expr H ''n => n > 1'' (VFloat (fl k)) = Inr (VBool (k > 1))"
  using exactD(6)[OF assms, of 1 Gt]
  by (simp add: parse_expr_lambda[OF forms_collatz(1)] eval_expr_form forms_collatz
      eval_literal_lit build_ctx_def py_compare_def int_compare_def)

lemma even_int: "parse_expr H ''n => n % 2 == 0'' (VInt k) = Inr (VBool (k mod 2 = 0))"
  by (simp add: parse_expr_lambda[OF forms_collatz(2)] eval_expr_form forms_collatz
      eval_literal_lit build_ctx_def py_arith_def int_arith_def py_compare_def int_compare_def)

lemma even_float:
  assumes "exact_on_integers H fl" "0 \<le> k" "k \<le> 2 ^ 53"
  shows "parse_expr H ''n => n % 2 == 0'' (VFloat (fl k)) = Inr (VBool (k mod 2 = 0))"
proof -
  have m: "0 \<le> k mod 2" "k mod 2 \<le> 2 ^ 53"
  proof -
    show "0 \<le> k mod 2" by simp
    have "k mod 2 < 2" by simp
    then show "k mod 2 \<le> 2 ^ 53" by simp
  qed
  show ?thesis
    using exactD(3)[OF assms, of 2] exactD(6)[OF assms(1) m, of 0 Eq]
    by (simp add: parse_expr_lambda[OF forms_collatz(2)] eval_expr_form forms_collatz
        eval_literal_lit build_ctx_def py_arith_def py_compare_def int_compare_def)
qed

lemma halve_int:
  assumes "exact_on_integers H fl" "0 \<le> k" "k \<le> 2 ^ 53" "k mod 2 = 0"
  shows "parse_expr H ''n => n / 2'' (VInt k) = Inr (VFloat (fl (k div 2)))"
  using exactD(1)[OF assms(1,2,3), of 2] assms(4)
  by (simp add: parse_expr_lambda[OF forms_collatz(3)] eval_expr_form forms_collatz
      eval_literal_lit build_ctx_def py_arith_def int_arith_def)

lemma halve_float:
  assumes "exact_on_integers H fl" "0 \<le> k" "k \<le> 2 ^ 53" "k mod 2 = 0"
  shows "parse_expr H ''n => n / 2'' (VFloat (fl k)) = Inr (VFloat (fl (k div 2)))"
  using exactD(2)[OF assms(1,2,3), of 2] assms(4)
  by (simp add: parse_expr_lambda[OF forms_collatz(3)] eval_expr_form forms_collatz
      eval_literal_lit build_ctx_def py_arith_def)

lemma triple_int: "parse_expr H ''n => n * 3 + 1'' (VInt k) = Inr (VInt (k * 3 + 1))"
  by (simp add: parse_expr_lambda[OF forms_collatz(4)] eval_expr_form forms_collatz
      eval_literal_lit build_ctx_def py_arith_def int_arith_def)

lemma triple_float:
  assumes "exact_on_integers H fl" "0 \<le> k" "k \<le> 2 ^ 50"
  shows "parse_expr H ''n => n * 3 + 1'' (VFloat (fl k)) = Inr (VFloat (fl (k * 3 + 1)))"
proof -
  have p: "(2::int) ^ 53 = 8 * 2 ^ 50" by simp
  have b: "k \<le> 2 ^ 53" "0 \<le> k * 3" "k * 3 \<le> 2 ^ 53" "k * 3 + 1 \<le> 2 ^ 53"
    using assms(2,3) unfolding p by simp_all
  show ?thesis
    using exactD(4)[OF assms(1,2) b(1), of 3] exactD(5)[OF assms(1) b(2,3), of 1] b
    by (simp add: parse_expr_lambda[OF forms_collatz(4)] eval_expr_form forms_collatz
        eval_literal_lit build_ctx_def py_arith_def)
qed

lemma body_int:
  assumes "exact_on_integers H fl" "0 \<le> k" "k \<le> 2 ^ 53"
  shows "fn (collatz_body H) (VInt k)
           = Inr (if k mod 2 = 0 then VFloat (fl (k div 2)) else VInt (k * 3 + 1))"
  using halve_int[OF assms]
  by (simp add: collatz_body_def branch_def branch_fn_def even_int triple_int)

lemma body_float:
  assumes "exact_on_integers H fl" "0 \<le> k" "k \<le> 2 ^ 50"
  shows "fn (collatz_body H) (VFloat (fl k)) = Inr (VFloat (fl (collatz_step k)))"
proof -
  have p: "(2::int) ^ 53 = 8 * 2 ^ 50" by simp
  have b: "k \<le> 2 ^ 53" using assms(3) unfolding p by simp
  show ?thesis
    using halve_float[OF assms(1,2) b] triple_float[OF assms]
    by (simp add: collatz_body_def branch_def branch_fn_def even_float[OF assms(1,2) b])
qed

lemma loop_float:
  assumes "exact_on_integers H fl"
  shows "collatz_small n k \<Longrightarrow>
     repeat_loop H n (parse_expr H ''n => n > 1'') (fn (collatz_body H)) (VFloat (fl k))
       = Inr (VFloat (fl (collatz_run n k)))"
proof (induction n arbitrary: k)
  case 0
  show ?case by simp
next
  case (Suc n)
  have p: "(2::int) ^ 53 = 8 * 2 ^ 50" by simp
  from Suc.prems have k: "0 \<le> k" "k \<le> 2 ^ 50" by simp_all
  then have b: "k \<le> 2 ^ 53" unfolding p by simp
  show ?case
  proof (cases "k > 1")
    case False
    then show ?thesis by (simp add: cond_float[OF assms k(1) b])
  next
    case True
    with Suc.prems have "collatz_small n (collatz_step k)" by simp
    from Suc.IH[OF this] True show ?thesis
      by (simp add: cond_float[OF assms k(1) b] body_float[OF assms k] del: collatz_step.simps)
  qed
qed

lemma collatz_41:
  "collatz_small 998 41" "collatz_run 998 41 = 1" "collatz_small 109 41" "collatz_run 109 41 = 1"
  by code_simp+

lemma collatz_27:
  assumes "exact_on_integers H fl" and "2 \<le> n"
    and "collatz_small (n - 2) 41" and "collatz_run (n - 2) 41 = 1"
  shows "repeat_loop H n (parse_expr H ''n => n > 1'') (fn (collatz_body H)) (VInt 27)
           = Inr (VFloat (fl 1))"
proof -
  from assms(2) obtain m where n: "n = Suc (Suc m)"
    by (metis Suc_le_D numeral_2_eq_2 Suc_le_mono)
  have b: "(0::int) \<le> 27" "(27::int) \<le> 2 ^ 53" "(0::int) \<le> 82" "(82::int) \<le> 2 ^ 53" by simp_all
  have "repeat_loop H n (parse_expr H ''n => n > 1'') (fn (collatz_body H)) (VInt 27)
      = repeat_loop H m (parse_expr H ''n => n > 1'') (fn (collatz_body H)) (VFloat (fl 41))"
    unfolding n
    by (simp add: cond_int body_int[OF assms(1) b(1,2)] body_int[OF assms(1) b(3,4)])
  also have "\<dots> = Inr (VFloat (fl (collatz_run m 41)))"
    using assms(3) n by (intro loop_float[OF assms(1)]) simp
  finally show ?thesis using assms(4) n by simp
qed

lemma forms_const:
  "lambda_of ''x => true'' = Some ([''x''], ''true'')"
  "lambda_of ''x => null'' = Some ([''x''], ''null'')"
  "lambda_of ''x => x'' = Some ([''x''], ''x'')"
  "form_of ''true'' = FAtom ''true''"
  "form_of ''null'' = FAtom ''null''"
  "form_of ''x'' = FAtom ''x''"
  "lit_of ''true'' = LBool True"
  "lit_of ''null'' = LNull"
  by code_simp+

lemma const_lambdas:
  "parse_expr H ''x => true'' v = Inr (VBool True)"
  "parse_expr H ''x => null'' v = Inr NONE"
  "parse_expr H ''x => x'' v = Inr v"
  by (simp_all add: parse_expr_lambda[OF forms_const(1)] parse_expr_lambda[OF forms_const(2)]
      parse_expr_lambda[OF forms_const(3)] eval_expr_form forms_const eval_literal_lit
      build_ctx_def)

text \<open>
  C8.  The block built by \<open>repeat\<close> returns \<open>y\<close> on \<open>x\<close> exactly when some \<open>k\<close> not above
  \<open>max_iterations\<close> applications of the body lead from \<open>x\<close> to \<open>y\<close>, the condition returning
  a truthy value before each of them, and either the cap is reached (\<open>k = max_iterations\<close>,
  whatever the condition says then) or the condition returns a falsy value on \<open>y\<close>.  The
  condition and the body may raise elsewhere; a cap below 1 applies nothing.  On a host
  whose floats are exact on the integers from 0 to \<open>2^53\<close>, the Collatz composition started
  at 27 returns the float 1 under the default cap of 1000, and already under a cap of 111;
  the condition \<open>n > 1\<close> is false on that value, which equals the integer 1.
\<close>

theorem repeat_bounded:
  "(fn (repeat H condition block max_iterations) x = Inr y \<longleftrightarrow>
      (\<exists>k \<le> nat max_iterations. \<exists>t. t 0 = x \<and> t k = y
          \<and> (\<forall>i < k. (\<exists>c. parse_expr H condition (t i) = Inr c \<and> truthy H c)
                      \<and> fn block (t i) = Inr (t (Suc i)))
          \<and> (k < nat max_iterations \<longrightarrow>
                (\<exists>c. parse_expr H condition (t k) = Inr c \<and> \<not> truthy H c))))
   \<and> (exact_on_integers H fl \<longrightarrow>
        fn (repeat H ''n => n > 1''
              (branch H ''n => n % 2 == 0'' (Expr ''n => n / 2'') (Expr ''n => n * 3 + 1''))
              default_max_iterations) (VInt 27) = Inr (VFloat (fl 1))
        \<and> fn (repeat H ''n => n > 1''
              (branch H ''n => n % 2 == 0'' (Expr ''n => n / 2'') (Expr ''n => n * 3 + 1''))
              111) (VInt 27) = Inr (VFloat (fl 1))
        \<and> parse_expr H ''n => n > 1'' (VFloat (fl 1)) = Inr (VBool False)
        \<and> py_compare H Eq (VFloat (fl 1)) (VInt 1) = Inr (VBool True))"
proof (intro conjI impI)
  show "fn (repeat H condition block max_iterations) x = Inr y \<longleftrightarrow>
      (\<exists>k \<le> nat max_iterations. \<exists>t. t 0 = x \<and> t k = y
          \<and> (\<forall>i < k. (\<exists>c. parse_expr H condition (t i) = Inr c \<and> truthy H c)
                      \<and> fn block (t i) = Inr (t (Suc i)))
          \<and> (k < nat max_iterations \<longrightarrow>
                (\<exists>c. parse_expr H condition (t k) = Inr c \<and> \<not> truthy H c)))"
    using repeat_loop_trace[of H "nat max_iterations" "parse_expr H condition" "fn block" x y]
    by (simp add: repeat_def repeat_fn_def)
next
  assume e: "exact_on_integers H fl"
  have one: "(0::int) \<le> 1" "(1::int) \<le> 2 ^ 53" by simp_all
  show "fn (repeat H ''n => n > 1''
              (branch H ''n => n % 2 == 0'' (Expr ''n => n / 2'') (Expr ''n => n * 3 + 1''))
              default_max_iterations) (VInt 27) = Inr (VFloat (fl 1))"
    using collatz_27[OF e, of 1000] collatz_41(1,2)
    by (simp add: repeat_def repeat_fn_def default_max_iterations_def collatz_body_def)
  show "fn (repeat H ''n => n > 1''
              (branch H ''n => n % 2 == 0'' (Expr ''n => n / 2'') (Expr ''n => n * 3 + 1''))
              111) (VInt 27) = Inr (VFloat (fl 1))"
    using collatz_27[OF e, of 111] collatz_41(3,4)
    by (simp add: repeat_def repeat_fn_def collatz_body_def)
  show "parse_expr H ''n => n > 1'' (VFloat (fl 1)) = Inr (VBool False)"
    using cond_float[OF e one] by simp
  show "py_compare H Eq (VFloat (fl 1)) (VInt 1) = Inr (VBool True)"
    using exactD(6)[OF e one one, of Eq] by (simp add: py_compare_def int_compare_def)
qed

text \<open>C8 at a loop that the cap ends (condition always true, cap 2), at a loop that the
  condition ends after one step, and at the Collatz run on the host with exact floats.\<close>

theorem repeat_bounded_witness:
  "fn (repeat exact_host ''x => true'' (parallel [pipe []]) 2) (VInt 0)
     = Inr (VTuple [VTuple [VInt 0]])
   \<and> fn (repeat exact_host ''x => x'' (transform exact_host ''x => null'') 1000) (VInt 5)
     = Inr NONE
   \<and> fn (repeat exact_host ''n => n > 1''
          (branch exact_host ''n => n % 2 == 0'' (Expr ''n => n / 2'') (Expr ''n => n * 3 + 1''))
          default_max_iterations) (VInt 27) = Inr (VFloat 1)"
proof -
  let ?wrap = "\<lambda>v :: rat val. VTuple [v]"
  let ?t = "\<lambda>i :: nat. (?wrap ^^ i) (VInt 0)"
  have wrap: "\<And>v :: rat val. fn (parallel [pipe []]) v = Inr (VTuple [v])"
    by (simp add: parallel_def parallel_fn_def pipe_def)
  have "\<exists>k \<le> nat 2. \<exists>t. t 0 = VInt 0 \<and> t k = VTuple [VTuple [VInt 0 :: rat val]]
          \<and> (\<forall>i < k. (\<exists>c. parse_expr exact_host ''x => true'' (t i) = Inr c \<and> truthy exact_host c)
                      \<and> fn (parallel [pipe []]) (t i) = Inr (t (Suc i)))
          \<and> (k < nat 2 \<longrightarrow>
                (\<exists>c. parse_expr exact_host ''x => true'' (t k) = Inr c \<and> \<not> truthy exact_host c))"
    by (intro exI[of _ 2] conjI exI[of _ ?t]) (simp_all add: const_lambdas wrap numeral_2_eq_2)
  then have cap: "fn (repeat exact_host ''x => true'' (parallel [pipe []]) 2) (VInt 0)
     = Inr (VTuple [VTuple [VInt 0]])"
    using repeat_bounded[where H = exact_host and condition = "''x => true''"
        and block = "parallel [pipe []]" and max_iterations = 2 and x = "VInt 0"
        and y = "VTuple [VTuple [VInt 0]]" and fl = of_int]
    by simp
  let ?u = "\<lambda>i :: nat. if i = 0 then VInt 5 else (NONE :: rat val)"
  have null: "\<And>v :: rat val. fn (transform exact_host ''x => null'') v = Inr NONE"
    by (simp add: transform_def const_lambdas)
  have "\<exists>k \<le> nat 1000. \<exists>t. t 0 = VInt 5 \<and> t k = (NONE :: rat val)
          \<and> (\<forall>i < k. (\<exists>c. parse_expr exact_host ''x => x'' (t i) = Inr c \<and> truthy exact_host c)
                      \<and> fn (transform exact_host ''x => null'') (t i) = Inr (t (Suc i)))
          \<and> (k < nat 1000 \<longrightarrow>
                (\<exists>c. parse_expr exact_host ''x => x'' (t k) = Inr c \<and> \<not> truthy exact_host c))"
    by (intro exI[of _ 1] conjI exI[of _ ?u]) (simp_all add: const_lambdas null)
  then have stop:
    "fn (repeat exact_host ''x => x'' (transform exact_host ''x => null'') 1000) (VInt 5) = Inr NONE"
    using repeat_bounded[where H = exact_host and condition = "''x => x''"
        and block = "transform exact_host ''x => null''" and max_iterations = 1000
        and x = "VInt 5" and y = NONE and fl = of_int]
    by simp
  have collatz: "fn (repeat exact_host ''n => n > 1''
          (branch exact_host ''n => n % 2 == 0'' (Expr ''n => n / 2'') (Expr ''n => n * 3 + 1''))
          default_max_iterations) (VInt 27) = Inr (VFloat 1)"
    using repeat_bounded[where H = exact_host and fl = of_int] exact_host_exact by simp
  from cap stop collatz show ?thesis by simp
qed

end
